theory Spec2Isabelle
  imports Complex_Main "HOL-Library.AList"
begin

section \<open>Exceptions and strings\<close>

text \<open>
  The service is one Python module, \<^verbatim>\<open>app.py\<close>.  Every exception that can leave one of its
  functions is a value of \<open>error\<close>; a function that may raise returns \<open>error + 'a\<close>, with
  \<open>Inl\<close> for the raised exception.
\<close>

datatype error = KeyError | IndexError | AttributeError | ValueError | TransportError | ParseError

definition bind_err :: "error + 'a \<Rightarrow> ('a \<Rightarrow> error + 'b) \<Rightarrow> error + 'b" where
  "bind_err r f = (case r of Inl e \<Rightarrow> Inl e | Inr x \<Rightarrow> f x)"

text \<open>A list comprehension whose element expression may raise: evaluated left to right,
  the first exception ends it.\<close>

fun traverse :: "('a \<Rightarrow> error + 'b) \<Rightarrow> 'a list \<Rightarrow> error + 'b list" where
  "traverse f [] = Inr []"
| "traverse f (x # xs) =
     (case f x of Inl e \<Rightarrow> Inl e
      | Inr y \<Rightarrow> (case traverse f xs of Inl e \<Rightarrow> Inl e | Inr ys \<Rightarrow> Inr (y # ys)))"

text \<open>\<^verbatim>\<open>s.startswith(p)\<close> and \<^verbatim>\<open>p in s\<close> on strings.\<close>

fun startswith :: "string \<Rightarrow> string \<Rightarrow> bool" where
  "startswith s [] = True"
| "startswith [] (p # ps) = False"
| "startswith (c # s) (p # ps) = (c = p \<and> startswith s ps)"

fun contains :: "string \<Rightarrow> string \<Rightarrow> bool" where
  "contains [] p = (p = [])"
| "contains (c # s) p = (startswith (c # s) p \<or> contains s p)"

section \<open>Configuration and the URL helper\<close>

definition BASE_URL :: string where
  "BASE_URL = ''https://rguktong.ac.in/''"

text \<open>
  \<^verbatim>\<open>urllib.parse.urljoin\<close> is library code: it is the parameter \<open>uj\<close> of everything that
  resolves an address, and may raise.

  \<^verbatim>\<open>
  def get_abs_url(path):
      if not path or path == "#": return None
      return urljoin(BASE_URL, path) if not path.startswith('http') else path
  \<close>
  The argument is an attribute value of the parsed page: a string, or \<^verbatim>\<open>None\<close>.
\<close>

type_synonym urljoin = "string \<Rightarrow> string \<Rightarrow> error + string"

definition get_abs_url :: "urljoin \<Rightarrow> string option \<Rightarrow> error + string option" where
  "get_abs_url uj path =
     (case path of
        None \<Rightarrow> Inr None
      | Some p \<Rightarrow>
          if p = [] \<or> p = ''#'' then Inr None
          else if \<not> startswith p ''http'' then map_sum id Some (uj BASE_URL p)
          else Inr (Some p))"

section \<open>Python string methods\<close>

text \<open>
  A string is the UTF-8 encoding of the Python string: one \<open>char\<close> per byte, so that a
  character outside ASCII is a sequence of two to four of them.  Equality, concatenation,
  \<^verbatim>\<open>startswith\<close>, \<^verbatim>\<open>in\<close> and \<^verbatim>\<open>replace\<close> act on the bytes as they act on the characters.

  \<^verbatim>\<open>str.upper\<close> and \<^verbatim>\<open>str.title\<close> are defined here for a string of ASCII characters, where only
  the letters \<^verbatim>\<open>a\<close> to \<^verbatim>\<open>z\<close> and \<^verbatim>\<open>A\<close> to \<^verbatim>\<open>Z\<close> have a case.  For a string with a character outside
  ASCII they depend on the Unicode tables of the interpreter: there the method is a
  parameter, \<open>up\<close> and \<open>ti\<close>.
\<close>

type_synonym str_method = "string \<Rightarrow> string"

definition ascii :: "string \<Rightarrow> bool" where
  "ascii s = list_all (\<lambda>c. \<not> digit7 c) s"

definition lowers :: string where "lowers = ''abcdefghijklmnopqrstuvwxyz''"
definition uppers :: string where "uppers = ''ABCDEFGHIJKLMNOPQRSTUVWXYZ''"

definition is_lower :: "char \<Rightarrow> bool" where "is_lower c = (c \<in> set lowers)"
definition is_upper :: "char \<Rightarrow> bool" where "is_upper c = (c \<in> set uppers)"

definition to_upper :: "char \<Rightarrow> char" where
  "to_upper c = (case map_of (zip lowers uppers) c of Some u \<Rightarrow> u | None \<Rightarrow> c)"

definition to_lower :: "char \<Rightarrow> char" where
  "to_lower c = (case map_of (zip uppers lowers) c of Some l \<Rightarrow> l | None \<Rightarrow> c)"

definition upper :: "str_method \<Rightarrow> string \<Rightarrow> string" where
  "upper up s = (if ascii s then map to_upper s else up s)"

text \<open>\<^verbatim>\<open>str.title\<close>: a cased character is put in upper case when the character before it is
  not cased, in lower case otherwise.\<close>

fun title_from :: "bool \<Rightarrow> string \<Rightarrow> string" where
  "title_from prev [] = []"
| "title_from prev (c # cs) =
     (if is_lower c \<or> is_upper c
      then (if prev then to_lower c else to_upper c) # title_from True cs
      else c # title_from False cs)"

definition title :: "str_method \<Rightarrow> string \<Rightarrow> string" where
  "title ti s = (if ascii s then title_from False s else ti s)"

text \<open>The characters of a string: a byte \<^verbatim>\<open>10xxxxxx\<close> continues the character before it.\<close>

definition continues :: "char \<Rightarrow> bool" where
  "continues c = (digit7 c \<and> \<not> digit6 c)"

definition characters :: "string \<Rightarrow> string list" where
  "characters s =
     foldr (\<lambda>c gs. case gs of
                      (x # g) # rest \<Rightarrow> if continues x then (c # x # g) # rest else [c] # gs
                    | _ \<Rightarrow> [c] # gs) s []"

text \<open>\<^verbatim>\<open>s.replace(old, new)\<close>: the occurrences of \<open>old\<close> are found from the left and do not
  overlap; \<open>k\<close> counts the bytes of a match still to be passed over.  With an empty \<open>old\<close>,
  \<open>new\<close> is put before every character and at the end.\<close>

fun replace_from :: "nat \<Rightarrow> string \<Rightarrow> string \<Rightarrow> string \<Rightarrow> string" where
  "replace_from k old new [] = []"
| "replace_from k old new (c # s) =
     (if 0 < k then replace_from (k - 1) old new s
      else if startswith (c # s) old then new @ replace_from (length old - 1) old new s
      else c # replace_from 0 old new s)"

definition replace :: "string \<Rightarrow> string \<Rightarrow> string \<Rightarrow> string" where
  "replace s old new =
     (if old = [] then new @ concat (map (\<lambda>ch. ch @ new) (characters s))
      else replace_from 0 old new s)"

text \<open>
  White space is what \<^verbatim>\<open>str.isspace\<close> holds of, which is also what \<^verbatim>\<open>\s\<close> matches: the ASCII
  characters 09 to 0D, 1C to 1F and 20, and the characters U+0085, U+00A0, U+1680, U+2000 to
  U+200A, U+2028, U+2029, U+202F, U+205F and U+3000, here in UTF-8.
\<close>

definition ascii_spaces :: string where
  "ascii_spaces = [CHR 0x09, CHR 0x0A, CHR 0x0B, CHR 0x0C, CHR 0x0D,
                   CHR 0x1C, CHR 0x1D, CHR 0x1E, CHR 0x1F, CHR 0x20]"

definition unicode_spaces :: "string list" where
  "unicode_spaces =
     [[CHR 0xC2, CHR 0x85], [CHR 0xC2, CHR 0xA0], [CHR 0xE1, CHR 0x9A, CHR 0x80],
      [CHR 0xE2, CHR 0x80, CHR 0x80], [CHR 0xE2, CHR 0x80, CHR 0x81],
      [CHR 0xE2, CHR 0x80, CHR 0x82], [CHR 0xE2, CHR 0x80, CHR 0x83],
      [CHR 0xE2, CHR 0x80, CHR 0x84], [CHR 0xE2, CHR 0x80, CHR 0x85],
      [CHR 0xE2, CHR 0x80, CHR 0x86], [CHR 0xE2, CHR 0x80, CHR 0x87],
      [CHR 0xE2, CHR 0x80, CHR 0x88], [CHR 0xE2, CHR 0x80, CHR 0x89],
      [CHR 0xE2, CHR 0x80, CHR 0x8A], [CHR 0xE2, CHR 0x80, CHR 0xA8],
      [CHR 0xE2, CHR 0x80, CHR 0xA9], [CHR 0xE2, CHR 0x80, CHR 0xAF],
      [CHR 0xE2, CHR 0x81, CHR 0x9F], [CHR 0xE3, CHR 0x80, CHR 0x80]]"

text \<open>The number of bytes of the white-space character a string starts with, \<open>0\<close> when it
  starts with none; \<open>seqs\<close> are the byte sequences of the characters outside ASCII.\<close>

definition space_len :: "string list \<Rightarrow> string \<Rightarrow> nat" where
  "space_len seqs s =
     (case s of
        [] \<Rightarrow> 0
      | c # r \<Rightarrow>
          if c \<in> set ascii_spaces then 1
          else if digit7 c
          then (case List.find (startswith s) seqs of None \<Rightarrow> 0 | Some sp \<Rightarrow> length sp)
          else 0)"

fun drop_spaces :: "string list \<Rightarrow> nat \<Rightarrow> string \<Rightarrow> string" where
  "drop_spaces seqs k [] = []"
| "drop_spaces seqs k (c # s) =
     (if 0 < k then drop_spaces seqs (k - 1) s
      else (case space_len seqs (c # s) of
              0 \<Rightarrow> c # s
            | Suc n \<Rightarrow> drop_spaces seqs n s))"

text \<open>\<^verbatim>\<open>str.strip\<close>: the white space at the start is dropped, then, on the reversed string and
  with the reversed sequences, the white space at the end.\<close>

definition strip :: "string \<Rightarrow> string" where
  "strip s =
     rev (drop_spaces (map rev unicode_spaces) 0 (rev (drop_spaces unicode_spaces 0 s)))"

text \<open>The tokens of a white-space separated attribute value (\<^verbatim>\<open>class\<close>).\<close>

fun tokens_from :: "nat \<Rightarrow> string \<Rightarrow> string \<Rightarrow> string list" where
  "tokens_from k acc [] = (if acc = [] then [] else [rev acc])"
| "tokens_from k acc (c # s) =
     (if 0 < k then tokens_from (k - 1) acc s
      else (case space_len unicode_spaces (c # s) of
              0 \<Rightarrow> tokens_from 0 (c # acc) s
            | Suc n \<Rightarrow> (if acc = [] then [] else [rev acc]) @ tokens_from n [] s))"

definition tokens :: "string \<Rightarrow> string list" where
  "tokens s = tokens_from 0 [] s"

section \<open>The parsed page\<close>

text \<open>
  \<^verbatim>\<open>BeautifulSoup(text, 'lxml')\<close> turns a response body into a tree.  The parser is library
  code and a parameter of the handlers; the tree it returns is the input of every extractor.
  A node is an element with its name, attributes and children, or a piece of text.  The
  functions below are the navigation methods of the library that the module calls, on that
  tree: \<^verbatim>\<open>find_all\<close> and \<^verbatim>\<open>find\<close> search the descendants in document order, \<^verbatim>\<open>get_text(strip=True)\<close>
  joins the stripped, non-empty pieces of text, \<^verbatim>\<open>next_sibling\<close>, \<^verbatim>\<open>find_parent\<close> and
  \<^verbatim>\<open>find_next\<close> look to the right, upwards and forwards from an element.

  The library gives every piece of text a class: the plain \<^verbatim>\<open>NavigableString\<close>, the class of
  the element that contains it when that element is one of \<^verbatim>\<open>rt\<close>, \<^verbatim>\<open>rp\<close>, \<^verbatim>\<open>style\<close>, \<^verbatim>\<open>script\<close> and
  \<^verbatim>\<open>template\<close>, or a class of markup (a comment, a declaration).  \<^verbatim>\<open>get_text\<close> of an element reads
  the pieces of one class only: of the element's own class if it is one of the five, the
  plain ones otherwise.
\<close>

datatype text_class = Plain | Contained string | Markup

datatype node = Tag string "(string \<times> string) list" "node list" | Text text_class string

type_synonym soup = "node list"

fun name :: "node \<Rightarrow> string option" where
  "name (Tag n a cs) = Some n"
| "name (Text k s) = None"

fun attrs :: "node \<Rightarrow> (string \<times> string) list" where
  "attrs (Tag n a cs) = a"
| "attrs (Text k s) = []"

fun children :: "node \<Rightarrow> node list" where
  "children (Tag n a cs) = cs"
| "children (Text k s) = []"

text \<open>\<^verbatim>\<open>tag.get(k)\<close> and \<^verbatim>\<open>tag[k]\<close>.\<close>

definition get :: "node \<Rightarrow> string \<Rightarrow> string option" where
  "get t k = map_of (attrs t) k"

definition item :: "node \<Rightarrow> string \<Rightarrow> error + string" where
  "item t k = (case get t k of None \<Rightarrow> Inl KeyError | Some v \<Rightarrow> Inr v)"

text \<open>A node and everything below it, in document order.\<close>

fun flat :: "node \<Rightarrow> node list" where
  "flat (Text k s) = [Text k s]"
| "flat (Tag n a cs) = Tag n a cs # concat (map flat cs)"

definition flatten :: "node list \<Rightarrow> node list" where
  "flatten ns = concat (map flat ns)"

definition descendants :: "node \<Rightarrow> node list" where
  "descendants t = flatten (children t)"

definition string_containers :: "string list" where
  "string_containers = [''rt'', ''rp'', ''style'', ''script'', ''template'']"

definition interesting :: "node \<Rightarrow> text_class" where
  "interesting t =
     (case name t of
        None \<Rightarrow> Plain
      | Some n \<Rightarrow> if n \<in> set string_containers then Contained n else Plain)"

fun text_of :: "text_class \<Rightarrow> node \<Rightarrow> string option" where
  "text_of cls (Text k s) = (if k = cls then Some s else None)"
| "text_of cls (Tag n a cs) = None"

definition get_text :: "node \<Rightarrow> string" where
  "get_text t =
     concat (filter (\<lambda>s. s \<noteq> [])
               (map strip (List.map_filter (text_of (interesting t)) (flat t))))"

text \<open>The filters of \<^verbatim>\<open>find_all\<close>: an element name out of a list, and \<^verbatim>\<open>class_\<close> with a list
  (one of the element's classes is one of the listed ones).\<close>

definition named :: "string list \<Rightarrow> node \<Rightarrow> bool" where
  "named ns t = (case name t of None \<Rightarrow> False | Some n \<Rightarrow> n \<in> set ns)"

definition has_class :: "string list \<Rightarrow> node \<Rightarrow> bool" where
  "has_class cls t =
     (case get t ''class'' of None \<Rightarrow> False | Some v \<Rightarrow> list_ex (\<lambda>c. c \<in> set cls) (tokens v))"

definition find_all :: "(node \<Rightarrow> bool) \<Rightarrow> node list \<Rightarrow> node list" where
  "find_all p ns = filter p (flatten ns)"

definition find_first :: "(node \<Rightarrow> bool) \<Rightarrow> node list \<Rightarrow> node option" where
  "find_first p ns = List.find p (flatten ns)"

text \<open>An element together with what lies around it: its ancestors (nearest first), the
  siblings after it, and every node after its start tag in document order.\<close>

datatype cursor =
  Cursor (here: node) (parents: "node list") (next_siblings: "node list") (following: "node list")

fun cursors :: "node list \<Rightarrow> node list \<Rightarrow> node list \<Rightarrow> cursor list" where
  "cursors anc k [] = []"
| "cursors anc k (Text c s # ns) = Cursor (Text c s) anc ns (flatten ns @ k) # cursors anc k ns"
| "cursors anc k (Tag n a cs # ns) =
     Cursor (Tag n a cs) anc ns (flatten cs @ flatten ns @ k)
       # cursors (Tag n a cs # anc) (flatten ns @ k) cs @ cursors anc k ns"

definition find_all_at :: "(node \<Rightarrow> bool) \<Rightarrow> node list \<Rightarrow> cursor list" where
  "find_all_at p ns = filter (\<lambda>c. p (here c)) (cursors [] [] ns)"

text \<open>\<^verbatim>\<open>if x:\<close> on a node: an element is always true, a piece of text, of whatever class, is
  true unless empty.\<close>

fun truthy :: "node \<Rightarrow> bool" where
  "truthy (Tag n a cs) = True"
| "truthy (Text k s) = (s \<noteq> [])"

section \<open>The universal parsers\<close>

subsection \<open>News, tenders and careers tables\<close>

record link_entry =
  link_text :: string
  link_url :: "string option"

record table_row =
  row_title :: string
  row_date :: string
  row_links :: "link_entry list"

text \<open>
  \<^verbatim>\<open>
  def parse_generic_table(html):
      soup = BeautifulSoup(html, 'lxml')
      results = []
      table = soup.find('table')
      if table:
          for row in table.find_all('tr')[1:]:
              cols = row.find_all('td')
              if len(cols) >= 2:
                  results.append({
                      "title": cols[0].get_text(strip=True),
                      "date": cols[1].get_text(strip=True),
                      "links": [{"text": a.get_text(strip=True), "url": get_abs_url(a['href'])}
                                for a in row.find_all('a', href=True)]
                  })
      return results
  \<close>
  \<^verbatim>\<open>href=True\<close> keeps the anchors that carry the attribute.  The page is parsed by the
  caller here: \<open>parse_generic_table\<close> is the function from its second line on.
\<close>

definition has_attr :: "string \<Rightarrow> node \<Rightarrow> bool" where
  "has_attr k t = (get t k \<noteq> None)"

definition row_link :: "urljoin \<Rightarrow> node \<Rightarrow> error + link_entry" where
  "row_link uj a =
     bind_err (item a ''href'')
       (\<lambda>h. bind_err (get_abs_url uj (Some h))
         (\<lambda>u. Inr \<lparr>link_text = get_text a, link_url = u\<rparr>))"

definition row_anchors :: "node \<Rightarrow> node list" where
  "row_anchors row = find_all (\<lambda>t. named [''a''] t \<and> has_attr ''href'' t) (children row)"

definition row_cols :: "node \<Rightarrow> node list" where
  "row_cols row = find_all (named [''td'']) (children row)"

fun table_rows :: "urljoin \<Rightarrow> node list \<Rightarrow> error + table_row list" where
  "table_rows uj [] = Inr []"
| "table_rows uj (row # rows) =
     (case row_cols row of
        c0 # c1 # cols \<Rightarrow>
          bind_err (traverse (row_link uj) (row_anchors row))
            (\<lambda>ls. bind_err (table_rows uj rows)
              (\<lambda>rs. Inr (\<lparr>row_title = get_text c0, row_date = get_text c1, row_links = ls\<rparr> # rs)))
      | _ \<Rightarrow> table_rows uj rows)"

definition parse_generic_table :: "urljoin \<Rightarrow> soup \<Rightarrow> error + table_row list" where
  "parse_generic_table uj soup =
     (case find_first (named [''table'']) soup of
        None \<Rightarrow> Inr []
      | Some table \<Rightarrow> table_rows uj (drop 1 (find_all (named [''tr'']) (children table))))"

subsection \<open>The deep bio fetcher\<close>

record response =
  status_code :: nat
  body :: string

datatype bio_value = Items "string list" | Str string

type_synonym bio = "(string \<times> bio_value) list"

text \<open>
  \<^verbatim>\<open>
  async def parse_deep_faculty(client, email):
      try:
          resp = await client.post(PROFILE_API, data={"email": email}, timeout=10.0)
          if resp.status_code != 200: return {}
          p_soup = BeautifulSoup(resp.text, 'lxml')
          details = {}
          for div in p_soup.find_all('div', id=lambda x: x and x.startswith('content-')):
              key = div.get('id').replace('content-', '').replace('_', ' ').title()
              items = [li.get_text(strip=True) for li in div.find_all('li')]
              details[key] = items if items else div.get_text(strip=True)
          return details
      except: return {"error": "Deep fetch failed"}
  \<close>
  The request and the parser are the parameters \<open>post\<close> and \<open>lxml\<close>, and \<open>ti\<close> is
  \<^verbatim>\<open>str.title\<close> outside ASCII; either of the first two may raise, and the
  bare \<^verbatim>\<open>except\<close> turns whatever is raised into the one-entry dictionary.  A dictionary is an
  association list in insertion order; assigning to a key that is there replaces its value
  in place.
\<close>

type_synonym post = "string option \<Rightarrow> error + response"
type_synonym lxml = "string \<Rightarrow> error + soup"

definition content_div :: "node \<Rightarrow> bool" where
  "content_div t =
     (named [''div''] t \<and>
      (case get t ''id'' of None \<Rightarrow> False | Some x \<Rightarrow> x \<noteq> [] \<and> startswith x ''content-''))"

definition detail_key :: "str_method \<Rightarrow> string \<Rightarrow> string" where
  "detail_key ti ident = title ti (replace (replace ident ''content-'' []) ''_'' '' '')"

definition detail_value :: "node \<Rightarrow> bio_value" where
  "detail_value d =
     (let items = map get_text (find_all (named [''li'']) (children d))
      in if items \<noteq> [] then Items items else Str (get_text d))"

fun details_loop :: "str_method \<Rightarrow> node list \<Rightarrow> bio \<Rightarrow> error + bio" where
  "details_loop ti [] details = Inr details"
| "details_loop ti (d # ds) details =
     (case get d ''id'' of
        None \<Rightarrow> Inl AttributeError
      | Some ident \<Rightarrow>
          details_loop ti ds (AList.update (detail_key ti ident) (detail_value d) details))"

definition parse_deep_faculty :: "str_method \<Rightarrow> post \<Rightarrow> lxml \<Rightarrow> string option \<Rightarrow> bio" where
  "parse_deep_faculty ti post lxml email =
     (case post email of
        Inl e \<Rightarrow> [(''error'', Str ''Deep fetch failed'')]
      | Inr resp \<Rightarrow>
          if status_code resp \<noteq> 200 then []
          else (case bind_err (lxml (body resp))
                       (\<lambda>p_soup. details_loop ti (find_all content_div p_soup) []) of
                  Inl e \<Rightarrow> [(''error'', Str ''Deep fetch failed'')]
                | Inr details \<Rightarrow> details))"

section \<open>The page extractors of the endpoints\<close>

subsection \<open>Home page\<close>

record announcement =
  ann_text :: string
  ann_link :: "string option"

record stat =
  stat_label :: string
  stat_value :: string

record home_data =
  announcements :: "announcement list"
  stats :: "stat list"
  images :: "string option list"

text \<open>
  \<^verbatim>\<open>
  data = {
      "announcements": [{"text": a.get_text(strip=True), "link": get_abs_url(a['href'])}
                        for a in soup.find_all('marquee')[0].find_all('a')]
                       if soup.find('marquee') else [],
      "stats": [{"label": s.find_next('p').get_text(strip=True), "value": s['data-purecounter-end']}
                for s in soup.find_all('span', class_='purecounter')],
      "images": [get_abs_url(img['src']) for img in soup.find_all('img') if img.get('src')]
  }
  \<close>
\<close>

definition announcement_of :: "urljoin \<Rightarrow> node \<Rightarrow> error + announcement" where
  "announcement_of uj a =
     bind_err (item a ''href'')
       (\<lambda>h. bind_err (get_abs_url uj (Some h))
         (\<lambda>u. Inr \<lparr>ann_text = get_text a, ann_link = u\<rparr>))"

definition stat_of :: "cursor \<Rightarrow> error + stat" where
  "stat_of s =
     (case List.find (named [''p'']) (following s) of
        None \<Rightarrow> Inl AttributeError
      | Some p \<Rightarrow>
          bind_err (item (here s) ''data-purecounter-end'')
            (\<lambda>v. Inr \<lparr>stat_label = get_text p, stat_value = v\<rparr>))"

definition has_src :: "node \<Rightarrow> bool" where
  "has_src img = (case get img ''src'' of None \<Rightarrow> False | Some v \<Rightarrow> v \<noteq> [])"

definition home_extract :: "urljoin \<Rightarrow> soup \<Rightarrow> error + home_data" where
  "home_extract uj soup =
     bind_err
       (case find_first (named [''marquee'']) soup of
          None \<Rightarrow> Inr []
        | Some m \<Rightarrow> traverse (announcement_of uj) (find_all (named [''a'']) (children m)))
       (\<lambda>anns. bind_err
          (traverse stat_of
             (find_all_at (\<lambda>t. named [''span''] t \<and> has_class [''purecounter''] t) soup))
          (\<lambda>sts. bind_err
             (traverse (\<lambda>img. get_abs_url uj (get img ''src''))
                (filter has_src (find_all (named [''img'']) soup)))
             (\<lambda>imgs. Inr \<lparr>announcements = anns, stats = sts, images = imgs\<rparr>)))"

subsection \<open>Institute pages\<close>

record page_section =
  sec_title :: string
  sec_content :: "string list"

record profile =
  prof_name :: string
  prof_photo :: "string option"
  prof_text :: "string list"

record institute_data =
  inst_page :: string
  sections :: "page_section list"
  profiles :: "profile list"

text \<open>
  \<^verbatim>\<open>
  sections = []
  content_area = soup.find('div', class_='rgukt-content') or soup.find('div', class_='main-data')
  if content_area:
      headings = content_area.find_all(['h1', 'h2', 'h3'],
                     class_=['heading-primary', 'heading-secondary', 'heading-teriatiry'])
      for h in headings:
          content = []
          curr = h.next_sibling
          while curr and curr.name not in ['h1', 'h2', 'h3']:
              if curr.name in ['p', 'ul', 'li']: content.append(curr.get_text(strip=True))
              curr = curr.next_sibling
          sections.append({"title": h.get_text(strip=True), "content": content})
  cards = []
  for card_div in soup.find_all('div', class_=['info-card', 'info-card-1']):
      name_tag = card_div.find(['h3', 'h2'])
      if name_tag:
          cards.append({
              "name": name_tag.get_text(strip=True),
              "photo": get_abs_url(card_div.find('img')['src']) if card_div.find('img') else None,
              "text": [p.get_text(strip=True) for p in card_div.find_all('p')]
          })
  res = {"page": page, "sections": sections, "profiles": cards}
  \<close>
\<close>

fun section_walk :: "node list \<Rightarrow> string list" where
  "section_walk [] = []"
| "section_walk (cur # rest) =
     (if truthy cur \<and> \<not> named [''h1'', ''h2'', ''h3''] cur
      then (if named [''p'', ''ul'', ''li''] cur then [get_text cur] else []) @ section_walk rest
      else [])"

definition section_of :: "cursor \<Rightarrow> page_section" where
  "section_of h = \<lparr>sec_title = get_text (here h), sec_content = section_walk (next_siblings h)\<rparr>"

definition content_area :: "soup \<Rightarrow> node option" where
  "content_area soup =
     (case find_first (\<lambda>t. named [''div''] t \<and> has_class [''rgukt-content''] t) soup of
        Some a \<Rightarrow> Some a
      | None \<Rightarrow> find_first (\<lambda>t. named [''div''] t \<and> has_class [''main-data''] t) soup)"

definition institute_sections :: "soup \<Rightarrow> page_section list" where
  "institute_sections soup =
     (case content_area soup of
        None \<Rightarrow> []
      | Some area \<Rightarrow>
          map section_of
            (find_all_at
               (\<lambda>t. named [''h1'', ''h2'', ''h3''] t \<and>
                     has_class [''heading-primary'', ''heading-secondary'', ''heading-teriatiry''] t)
               (children area)))"

text \<open>The photo of a card: \<^verbatim>\<open>get_abs_url(card.find('img')['src']) if card.find('img') else None\<close>.\<close>

definition card_photo :: "urljoin \<Rightarrow> node \<Rightarrow> error + string option" where
  "card_photo uj c =
     (case find_first (named [''img'']) (children c) of
        None \<Rightarrow> Inr None
      | Some img \<Rightarrow> bind_err (item img ''src'') (\<lambda>v. get_abs_url uj (Some v)))"

fun institute_cards :: "urljoin \<Rightarrow> node list \<Rightarrow> error + profile list" where
  "institute_cards uj [] = Inr []"
| "institute_cards uj (card_div # rest) =
     (case find_first (named [''h3'', ''h2'']) (children card_div) of
        None \<Rightarrow> institute_cards uj rest
      | Some name_tag \<Rightarrow>
          bind_err (card_photo uj card_div)
            (\<lambda>ph. bind_err (institute_cards uj rest)
              (\<lambda>cards. Inr (\<lparr>prof_name = get_text name_tag, prof_photo = ph,
                               prof_text = map get_text (find_all (named [''p'']) (children card_div))\<rparr>
                             # cards))))"

definition institute_extract :: "urljoin \<Rightarrow> string \<Rightarrow> soup \<Rightarrow> error + institute_data" where
  "institute_extract uj page soup =
     (let secs = institute_sections soup in
      bind_err
        (institute_cards uj
           (find_all (\<lambda>t. named [''div''] t \<and> has_class [''info-card'', ''info-card-1''] t) soup))
        (\<lambda>cards. Inr \<lparr>inst_page = page, sections = secs, profiles = cards\<rparr>))"

subsection \<open>Academic pages\<close>

record acad_link =
  acad_label :: string
  acad_url :: "string option"

record link_group =
  header :: string
  group_links :: "acad_link list"

text \<open>
  \<^verbatim>\<open>
  links = []
  content_area = soup.find('div', class_='rgukt-content')
  if content_area:
      headers = content_area.find_all(['h1', 'h3'])
      for h in headers:
          section_links = []
          curr = h.next_sibling
          while curr and curr.name not in ['h1', 'h3']:
              if curr.name == 'a':
                  section_links.append({"label": curr.get_text(strip=True),
                                        "url": get_abs_url(curr['href'])})
              curr = curr.next_sibling
          links.append({"header": h.get_text(strip=True), "links": section_links})
  \<close>
\<close>

fun acad_walk :: "urljoin \<Rightarrow> node list \<Rightarrow> error + acad_link list" where
  "acad_walk uj [] = Inr []"
| "acad_walk uj (cur # rest) =
     (if truthy cur \<and> \<not> named [''h1'', ''h3''] cur
      then (if named [''a''] cur
            then bind_err (item cur ''href'')
                   (\<lambda>h. bind_err (get_abs_url uj (Some h))
                     (\<lambda>u. bind_err (acad_walk uj rest)
                       (\<lambda>ls. Inr (\<lparr>acad_label = get_text cur, acad_url = u\<rparr> # ls))))
            else acad_walk uj rest)
      else Inr [])"

definition link_group_of :: "urljoin \<Rightarrow> cursor \<Rightarrow> error + link_group" where
  "link_group_of uj h =
     bind_err (acad_walk uj (next_siblings h))
       (\<lambda>ls. Inr \<lparr>header = get_text (here h), group_links = ls\<rparr>)"

definition academic_extract :: "urljoin \<Rightarrow> soup \<Rightarrow> error + link_group list" where
  "academic_extract uj soup =
     (case find_first (\<lambda>t. named [''div''] t \<and> has_class [''rgukt-content''] t) soup of
        None \<Rightarrow> Inr []
      | Some area \<Rightarrow>
          traverse (link_group_of uj) (find_all_at (named [''h1'', ''h3'']) (children area)))"

subsection \<open>Department staff\<close>

record staff =
  staff_name :: string
  email :: "string option"
  photo :: "string option"
  bio :: "bio option"

record dept_data =
  dept :: string
  faculties :: "staff list"

text \<open>
  \<^verbatim>\<open>
  staff = []
  seen = set()
  for form in soup.find_all('form', action=lambda x: x and 'profile_details.php' in x):
      email_input = form.find('input', {'name': 'email'})
      if not email_input: continue
      email = email_input.get('value')
      if email in seen: continue
      seen.add(email)
      card = form.find_parent('div', class_=['bg-white', 'rounded-lg'])
      if card:
          name_tag = card.find(['h5', 'h3'])
          staff.append({
              "name": name_tag.get_text(strip=True) if name_tag else "Unknown",
              "email": email,
              "photo": get_abs_url(card.find('img')['src']) if card.find('img') else None
          })
  \<close>
  The record has no \<^verbatim>\<open>bio\<close> key until the deep fetch sets it: \<open>bio = None\<close>.
\<close>

definition profile_form :: "node \<Rightarrow> bool" where
  "profile_form t =
     (named [''form''] t \<and>
      (case get t ''action'' of
         None \<Rightarrow> False
       | Some x \<Rightarrow> x \<noteq> [] \<and> contains x ''profile_details.php''))"

definition email_input :: "cursor \<Rightarrow> node option" where
  "email_input form =
     find_first (\<lambda>t. named [''input''] t \<and> get t ''name'' = Some ''email'') (children (here form))"

definition find_card :: "cursor \<Rightarrow> node option" where
  "find_card form =
     List.find (\<lambda>t. named [''div''] t \<and> has_class [''bg-white'', ''rounded-lg''] t) (parents form)"

definition card_name :: "node \<Rightarrow> string" where
  "card_name c =
     (case find_first (named [''h5'', ''h3'']) (children c) of
        None \<Rightarrow> ''Unknown''
      | Some name_tag \<Rightarrow> get_text name_tag)"

fun staff_loop ::
  "urljoin \<Rightarrow> cursor list \<Rightarrow> string option set \<Rightarrow> staff list \<Rightarrow> error + staff list" where
  "staff_loop uj [] seen acc = Inr acc"
| "staff_loop uj (form # forms) seen acc =
     (case email_input form of
        None \<Rightarrow> staff_loop uj forms seen acc
      | Some inp \<Rightarrow>
          (let e = get inp ''value'' in
           if e \<in> seen then staff_loop uj forms seen acc
           else (case find_card form of
                   None \<Rightarrow> staff_loop uj forms (insert e seen) acc
                 | Some c \<Rightarrow>
                     bind_err (card_photo uj c)
                       (\<lambda>ph. staff_loop uj forms (insert e seen)
                          (acc @ [\<lparr>staff_name = card_name c, email = e, photo = ph,
                                   bio = None\<rparr>])))))"

definition staff_extract :: "urljoin \<Rightarrow> soup \<Rightarrow> error + staff list" where
  "staff_extract uj soup = staff_loop uj (find_all_at profile_form soup) {} []"

text \<open>
  \<^verbatim>\<open>
  if deep:
      tasks = [parse_deep_faculty(client, s['email']) for s in staff]
      bios = await asyncio.gather(*tasks)
      for i, bio in enumerate(bios): staff[i]['bio'] = bio
  \<close>
  \<^verbatim>\<open>asyncio.gather\<close> runs the tasks concurrently.  The order in which they finish is not the
  program's: \<open>delay i\<close> is when the \<open>i\<close>-th task finishes, the tasks finish in the order of
  their delays, and each one, when it finishes, puts its result into the slot of its own
  position.  The awaited value is the list of the slots.
\<close>

definition gather :: "(nat \<Rightarrow> nat) \<Rightarrow> 'a list \<Rightarrow> 'a list" where
  "gather delay tasks =
     List.map_filter id
       (fold (\<lambda>i slots. slots[i := Some (tasks ! i)])
          (sort_key delay [0..<length tasks]) (replicate (length tasks) None))"

fun attach_bios :: "(nat \<times> bio) list \<Rightarrow> staff list \<Rightarrow> error + staff list" where
  "attach_bios [] st = Inr st"
| "attach_bios ((i, b) # rest) st =
     (if i < length st then attach_bios rest (st[i := (st ! i)\<lparr>bio := Some b\<rparr>])
      else Inl IndexError)"

definition deep_fetch ::
  "str_method \<Rightarrow> post \<Rightarrow> lxml \<Rightarrow> (nat \<Rightarrow> nat) \<Rightarrow> bool \<Rightarrow> staff list \<Rightarrow> error + staff list" where
  "deep_fetch ti post lxml delay deep st =
     (if deep
      then (let tasks = map (\<lambda>s. parse_deep_faculty ti post lxml (email s)) st;
                bios = gather delay tasks
            in attach_bios (enumerate 0 bios) st)
      else Inr st)"

section \<open>The response cache\<close>

text \<open>
  \<^verbatim>\<open>cache = TTLCache(maxsize=200, ttl=3600)\<close>

  The cache is the library's \<^verbatim>\<open>cachetools.TTLCache\<close>, shared by every endpoint.  Its clock is
  made explicit: each operation takes the time \<open>now\<close> at which it runs, and the clock never
  runs backwards.  The times are the clock's floating-point numbers.  They are compared as
  the real numbers they are, but the sum of two of them is rounded: the sum is the
  parameter \<open>add\<close>, which like every rounded sum grows with its arguments, so that entries
  expire in the order in which they were stored.  The state is the list of stored entries,
  least recently used first, each with the time at which it expires.
  \<^item> \<^verbatim>\<open>key in cache\<close> holds when the key is stored and \<open>now\<close> is before its expiry.
  \<^item> \<^verbatim>\<open>cache[key]\<close> returns the value under the same condition and makes the entry the most
    recently used; otherwise it raises \<^verbatim>\<open>KeyError\<close>.
  \<^item> \<^verbatim>\<open>cache[key] = value\<close> first removes every expired entry; for a key that is not stored it
    then removes least recently used entries until there is room for one more; the entry is
    stored as the most recently used, expiring at \<open>add now ttl\<close>.
  The value of an entry is what an endpoint returned: the cache is one dictionary for all
  of them.
\<close>

datatype cached =
  HomeData home_data
| InstituteData institute_data
| AcademicData "link_group list"
| DeptData dept_data
| TableData "table_row list"

type_synonym cache = "(string \<times> real \<times> cached) list"

definition maxsize :: nat where "maxsize = 200"
definition ttl :: real where "ttl = 3600"

definition cache_contains :: "real \<Rightarrow> cache \<Rightarrow> string \<Rightarrow> bool" where
  "cache_contains now c k = (case map_of c k of None \<Rightarrow> False | Some (expires, v) \<Rightarrow> now < expires)"

definition cache_getitem :: "real \<Rightarrow> cache \<Rightarrow> string \<Rightarrow> (error + cached) \<times> cache" where
  "cache_getitem now c k =
     (case map_of c k of
        None \<Rightarrow> (Inl KeyError, c)
      | Some (expires, v) \<Rightarrow>
          (if now < expires then Inr v else Inl KeyError,
           filter (\<lambda>e. fst e \<noteq> k) c @ [(k, expires, v)]))"

definition expire :: "real \<Rightarrow> cache \<Rightarrow> cache" where
  "expire now c = filter (\<lambda>(k, expires, v). now < expires) c"

type_synonym timer_add = "real \<Rightarrow> real \<Rightarrow> real"

definition cache_setitem :: "timer_add \<Rightarrow> real \<Rightarrow> cache \<Rightarrow> string \<Rightarrow> cached \<Rightarrow> cache" where
  "cache_setitem add now c k v =
     (let live = expire now c;
          room = (if map_of live k = None then drop (length live + 1 - maxsize) live else live)
      in filter (\<lambda>e. fst e \<noteq> k) room @ [(k, add now ttl, v)])"

section \<open>The endpoints\<close>

text \<open>
  What a handler depends on besides its arguments: \<^verbatim>\<open>urljoin\<close>, the HTML parser, the upstream
  site as seen through \<^verbatim>\<open>client.get\<close> and \<^verbatim>\<open>client.post\<close> (a response, or the exception of a
  failed transfer), the finishing order of concurrent bio requests, \<^verbatim>\<open>str.upper\<close> and
  \<^verbatim>\<open>str.title\<close> outside ASCII, and the rounded sum of the cache's clock.
\<close>

record env =
  urljoin :: urljoin
  lxml :: lxml
  client_get :: "string \<Rightarrow> error + response"
  client_post :: post
  delay :: "nat \<Rightarrow> nat"
  str_upper :: str_method
  str_title :: str_method
  timer_add :: timer_add

datatype request = Get string | Post "string option"

text \<open>A handler returns its result (an exception becomes the framework's server error),
  the cache it leaves, and the upstream requests it issued, in order.  It runs at one
  reading \<open>now\<close> of the clock: the membership test and the read or the insertion that follows
  it see the same time.\<close>

record reply =
  result :: "error + cached"
  cache_after :: cache
  requests :: "request list"

text \<open>\<^verbatim>\<open>return cache[key]\<close>, and \<^verbatim>\<open>cache[key] = data; return data\<close> after the requests \<open>rs\<close>.\<close>

definition hit :: "real \<Rightarrow> cache \<Rightarrow> string \<Rightarrow> reply" where
  "hit now c k =
     (case cache_getitem now c k of
        (r, c') \<Rightarrow> \<lparr>result = r, cache_after = c', requests = []\<rparr>)"

definition store ::
  "timer_add \<Rightarrow> real \<Rightarrow> cache \<Rightarrow> string \<Rightarrow> request list \<Rightarrow> error + cached \<Rightarrow> reply" where
  "store add now c k rs r =
     (case r of
        Inl e \<Rightarrow> \<lparr>result = Inl e, cache_after = c, requests = rs\<rparr>
      | Inr v \<Rightarrow> \<lparr>result = Inr v, cache_after = cache_setitem add now c k v, requests = rs\<rparr>)"

text \<open>\<^verbatim>\<open>resp = await client.get(url); soup = BeautifulSoup(resp.text, 'lxml')\<close>\<close>

definition fetch_soup :: "env \<Rightarrow> string \<Rightarrow> error + soup" where
  "fetch_soup env url = bind_err (client_get env url) (\<lambda>resp. lxml env (body resp))"

text \<open>
  \<^verbatim>\<open>
  @app.get("/api/home")
  async def home_api(client):
      if "home" in cache: return cache["home"]
      resp = await client.get(BASE_URL)
      soup = BeautifulSoup(resp.text, 'lxml')
      data = {...}
      cache["home"] = data
      return data
  \<close>
\<close>

definition home_api :: "env \<Rightarrow> real \<Rightarrow> cache \<Rightarrow> reply" where
  "home_api env now c =
     (if cache_contains now c ''home'' then hit now c ''home''
      else store (timer_add env) now c ''home'' [Get BASE_URL]
             (bind_err (fetch_soup env BASE_URL)
                (\<lambda>soup. map_sum id HomeData (home_extract (urljoin env) soup))))"

text \<open>
  \<^verbatim>\<open>
  @app.get("/api/institute/{page}")
  async def institute_info(page: str, client):
      if page in cache: return cache[page]
      resp = await client.get(f"{BASE_URL}instituteinfo.php?data={page}")
      soup = BeautifulSoup(resp.text, 'lxml')
      ...
      res = {"page": page, "sections": sections, "profiles": cards}
      cache[page] = res
      return res
  \<close>
\<close>

definition institute_info :: "env \<Rightarrow> real \<Rightarrow> string \<Rightarrow> cache \<Rightarrow> reply" where
  "institute_info env now page c =
     (if cache_contains now c page then hit now c page
      else (let url = BASE_URL @ ''instituteinfo.php?data='' @ page in
            store (timer_add env) now c page [Get url]
              (bind_err (fetch_soup env url)
                 (\<lambda>soup. map_sum id InstituteData (institute_extract (urljoin env) page soup)))))"

text \<open>
  \<^verbatim>\<open>
  @app.get("/api/academics/{page}")
  async def academic_records(page: str, client):
      if f"acad_{page}" in cache: return cache[f"acad_{page}"]
      resp = await client.get(f"{BASE_URL}instituteinfo.php?data={page}")
      soup = BeautifulSoup(resp.text, 'lxml')
      ...
      cache[f"acad_{page}"] = links
      return links
  \<close>
\<close>

definition academic_records :: "env \<Rightarrow> real \<Rightarrow> string \<Rightarrow> cache \<Rightarrow> reply" where
  "academic_records env now page c =
     (if cache_contains now c (''acad_'' @ page) then hit now c (''acad_'' @ page)
      else (let url = BASE_URL @ ''instituteinfo.php?data='' @ page in
            store (timer_add env) now c (''acad_'' @ page) [Get url]
              (bind_err (fetch_soup env url)
                 (\<lambda>soup. map_sum id AcademicData (academic_extract (urljoin env) soup)))))"

text \<open>
  \<^verbatim>\<open>
  @app.get("/api/departments/{dept_code}")
  async def department_staff(dept_code: str, deep: bool = False, client):
      cache_key = f"dept_{dept_code}_{deep}"
      if cache_key in cache: return cache[cache_key]
      resp = await client.get(f"{BASE_URL}departmentinfo.php?department={dept_code.upper()}")
      soup = BeautifulSoup(resp.text, 'lxml')
      ...
      res = {"dept": dept_code, "faculties": staff}
      cache[cache_key] = res
      return res
  \<close>
  The bio requests are issued only when the page was fetched and its staff extracted.
\<close>

definition dept_key :: "string \<Rightarrow> bool \<Rightarrow> string" where
  "dept_key dept_code deep = ''dept_'' @ dept_code @ ''_'' @ (if deep then ''True'' else ''False'')"

definition department_staff :: "env \<Rightarrow> real \<Rightarrow> string \<Rightarrow> bool \<Rightarrow> cache \<Rightarrow> reply" where
  "department_staff env now dept_code deep c =
     (let cache_key = dept_key dept_code deep in
      if cache_contains now c cache_key then hit now c cache_key
      else (let url = BASE_URL @ ''departmentinfo.php?department=''
                        @ upper (str_upper env) dept_code;
                st = bind_err (fetch_soup env url) (staff_extract (urljoin env))
            in store (timer_add env) now c cache_key
                 (Get url # (case st of
                               Inl e \<Rightarrow> []
                             | Inr s \<Rightarrow> if deep then map (\<lambda>x. Post (email x)) s else []))
                 (bind_err st
                    (\<lambda>s. bind_err (deep_fetch (str_title env) (client_post env) (lxml env)
                                        (delay env) deep s)
                       (\<lambda>s'. Inr (DeptData \<lparr>dept = dept_code, faculties = s'\<rparr>))))))"

text \<open>
  \<^verbatim>\<open>
  @app.get("/api/notifications")
  async def news_tenders_careers(
          type: str = Query("news_updates", enum=["news_updates", "tenders", "careers"]), client):
      if type in cache: return cache[type]
      resp = await client.get(f"{BASE_URL}instituteinfo.php?data={type}")
      data = parse_generic_table(resp.text)
      cache[type] = data
      return data
  \<close>
  The parameter is declared a string with a default.  The list of the three names is the
  \<^verbatim>\<open>enum\<close> keyword of \<^verbatim>\<open>Query\<close>, which goes into the published schema of the parameter; the
  handler's body does not look at it.
\<close>

definition notification_enum :: "string list" where
  "notification_enum = [''news_updates'', ''tenders'', ''careers'']"

definition news_tenders_careers :: "env \<Rightarrow> real \<Rightarrow> string \<Rightarrow> cache \<Rightarrow> reply" where
  "news_tenders_careers env now type c =
     (if cache_contains now c type then hit now c type
      else (let url = BASE_URL @ ''instituteinfo.php?data='' @ type in
            store (timer_add env) now c type [Get url]
              (bind_err (fetch_soup env url)
                 (\<lambda>soup. map_sum id TableData (parse_generic_table (urljoin env) soup)))))"

text \<open>The read endpoints as one service: a request, with the query parameters filled in
  by their defaults when absent.\<close>

datatype api_request =
  ApiHome
| ApiInstitute string
| ApiAcademics string
| ApiDepartments string "bool option"
| ApiNotifications "string option"

fun serve :: "env \<Rightarrow> real \<Rightarrow> api_request \<Rightarrow> cache \<Rightarrow> reply" where
  "serve env now ApiHome c = home_api env now c"
| "serve env now (ApiInstitute page) c = institute_info env now page c"
| "serve env now (ApiAcademics page) c = academic_records env now page c"
| "serve env now (ApiDepartments dept_code deep) c =
     department_staff env now dept_code (case deep of None \<Rightarrow> False | Some d \<Rightarrow> d) c"
| "serve env now (ApiNotifications type) c =
     news_tenders_careers env now (case type of None \<Rightarrow> ''news_updates'' | Some t \<Rightarrow> t) c"

section \<open>The specification's wording, and sample pages\<close>

text \<open>
  The specification describes the URL helper by what an address is, not by how the code
  tests it: absent for an empty input or the placeholder, unchanged for an input that has a
  scheme, joined against the base otherwise.  \<open>resolve\<close> is that description; a scheme is a
  letter followed by letters, digits, \<^verbatim>\<open>+\<close>, \<^verbatim>\<open>-\<close> or \<^verbatim>\<open>.\<close> up to a colon.
\<close>

definition is_alpha :: "char \<Rightarrow> bool" where
  "is_alpha c = (is_lower c \<or> is_upper c)"

definition scheme_char :: "char \<Rightarrow> bool" where
  "scheme_char c = (is_alpha c \<or> c \<in> set ''0123456789+-.'')"

definition has_scheme :: "string \<Rightarrow> bool" where
  "has_scheme s =
     (case s of
        [] \<Rightarrow> False
      | c # cs \<Rightarrow>
          is_alpha c \<and>
          (case dropWhile scheme_char cs of [] \<Rightarrow> False | x # rest \<Rightarrow> x = CHR '':''))"

definition resolve :: "urljoin \<Rightarrow> string option \<Rightarrow> error + string option" where
  "resolve uj path =
     (case path of
        None \<Rightarrow> Inr None
      | Some p \<Rightarrow>
          if p = [] \<or> p = ''#'' then Inr None
          else if has_scheme p then Inr (Some p)
          else map_sum id Some (uj BASE_URL p))"

text \<open>The specification's field label of a bio block: the identifier's suffix after the
  prefix \<^verbatim>\<open>content-\<close>, underscores turned into spaces, in title case.\<close>

definition suffix_label :: "str_method \<Rightarrow> string \<Rightarrow> string" where
  "suffix_label ti ident = title ti (replace (drop (length ''content-'') ident) ''_'' '' '')"

text \<open>A site that answers every request with status 200 and whose pages all parse to the
  tree \<open>page\<close>; bio requests fail.  \<^verbatim>\<open>urljoin\<close> and the clock's sum are left open.\<close>

definition site :: "urljoin \<Rightarrow> timer_add \<Rightarrow> soup \<Rightarrow> env" where
  "site uj add page =
     \<lparr>urljoin = uj, lxml = (\<lambda>text. Inr page),
      client_get = (\<lambda>url. Inr \<lparr>status_code = 200, body = []\<rparr>),
      client_post = (\<lambda>e. Inl TransportError), delay = (\<lambda>i. i),
      str_upper = (\<lambda>s. s), str_title = (\<lambda>s. s), timer_add = add\<rparr>"

text \<open>A home page with one image; a listing whose only data row links to the relative
  address \<^verbatim>\<open>httpx/a.png\<close>; a bio page with one block, \<^verbatim>\<open><div id="content-content-x">t</div>\<close>.\<close>

definition home_page :: soup where
  "home_page = [Tag ''body'' [] [Tag ''img'' [(''src'', ''https://rguktong.ac.in/logo.png'')] []]]"

definition listing_page :: soup where
  "listing_page =
     [Tag ''table'' []
        [Tag ''tr'' [] [Tag ''th'' [] [Text Plain ''Title''], Tag ''th'' [] [Text Plain ''Date'']],
         Tag ''tr'' []
           [Tag ''td'' [] [Text Plain ''Notice''],
            Tag ''td'' [] [Text Plain ''1 Jan''],
            Tag ''td'' [] [Tag ''a'' [(''href'', ''httpx/a.png'')] [Text Plain ''view'']]]]]"

definition bio_page :: soup where
  "bio_page = [Tag ''div'' [(''id'', ''content-content-x'')] [Text Plain ''t'']]"

text \<open>
  Staff extraction in the specification's terms.  A form carries the e-mail of its
  \<^verbatim>\<open>email\<close> field (\<open>None\<close> when it has no such field; the value itself is \<^verbatim>\<open>None\<close> when the
  field has no \<^verbatim>\<open>value\<close>).  \<open>first_form forms e\<close> is the first form in document order that
  carries \<open>e\<close>, \<open>carded forms e\<close> says that this form lies inside a card container, and
  \<open>first_occurrences\<close> keeps of every element of a list its first occurrence.
\<close>

definition form_email :: "cursor \<Rightarrow> string option option" where
  "form_email f = map_option (\<lambda>inp. get inp ''value'') (email_input f)"

definition first_form :: "cursor list \<Rightarrow> string option \<Rightarrow> cursor option" where
  "first_form forms e = List.find (\<lambda>f. form_email f = Some e) forms"

definition carded :: "cursor list \<Rightarrow> string option \<Rightarrow> bool" where
  "carded forms e = (case first_form forms e of None \<Rightarrow> False | Some f \<Rightarrow> find_card f \<noteq> None)"

definition first_occurrences :: "'a list \<Rightarrow> 'a list" where
  "first_occurrences xs = rev (remdups (rev xs))"

definition staff_of :: "node \<Rightarrow> string option \<Rightarrow> string option \<Rightarrow> staff" where
  "staff_of c e ph = \<lparr>staff_name = card_name c, email = e, photo = ph, bio = None\<rparr>"

text \<open>The record \<open>r\<close> was built from the card of the first form that carries its e-mail.\<close>

definition from_first_form :: "urljoin \<Rightarrow> cursor list \<Rightarrow> staff \<Rightarrow> bool" where
  "from_first_form uj forms r =
     (\<exists>f c. first_form forms (email r) = Some f \<and> find_card f = Some c \<and>
            card_photo uj c = Inr (photo r) \<and> r = staff_of c (email r) (photo r))"

text \<open>
  A department page: the card of Dr A, a second card with the same e-mail, the card of Dr B,
  and a profile form without an e-mail field.  A second page on which the first form with
  the e-mail \<^verbatim>\<open>a@x\<close> stands outside every card and the second one inside a card.  No address
  on them is relative, so the join is not called; \<open>no_join\<close> stands for it.
\<close>

definition profile_form_for :: "string \<Rightarrow> node" where
  "profile_form_for e =
     Tag ''form'' [(''action'', ''profiles/profile_details.php'')]
       [Tag ''input'' [(''name'', ''email''), (''value'', e)] []]"

definition staff_page :: soup where
  "staff_page =
     [Tag ''div'' [(''class'', ''bg-white rounded-lg'')]
        [Tag ''h5'' [] [Text Plain ''Dr A''], profile_form_for ''a@x''],
      Tag ''div'' [(''class'', ''bg-white rounded-lg'')]
        [Tag ''h5'' [] [Text Plain ''Dr A again''], profile_form_for ''a@x''],
      Tag ''div'' [(''class'', ''bg-white rounded-lg'')]
        [Tag ''h5'' [] [Text Plain ''Dr B''], profile_form_for ''b@x''],
      Tag ''div'' [(''class'', ''bg-white rounded-lg'')]
        [Tag ''h5'' [] [Text Plain ''Office''],
         Tag ''form'' [(''action'', ''profiles/profile_details.php'')] []]]"

definition cardless_page :: soup where
  "cardless_page =
     [profile_form_for ''a@x'',
      Tag ''div'' [(''class'', ''bg-white rounded-lg'')]
        [Tag ''h5'' [] [Text Plain ''Dr A''], profile_form_for ''a@x'']]"

definition no_join :: urljoin where
  "no_join base url = Inl ValueError"

text \<open>The site of the department page: a bio request for the e-mail \<open>e\<close> is answered with a
  page whose one block holds \<open>e\<close>, and the bio requests finish in reverse order.\<close>

definition staff_site :: env where
  "staff_site =
     \<lparr>urljoin = no_join,
      lxml = (\<lambda>text. if text = [] then Inr staff_page
                      else Inr [Tag ''div'' [(''id'', ''content-email'')] [Text Plain text]]),
      client_get = (\<lambda>url. Inr \<lparr>status_code = 200, body = []\<rparr>),
      client_post = (\<lambda>e. case e of None \<Rightarrow> Inl TransportError
                                   | Some x \<Rightarrow> Inr \<lparr>status_code = 200, body = x\<rparr>),
      delay = (\<lambda>i. 10 - i),
      str_upper = (\<lambda>s. s), str_title = (\<lambda>s. s), timer_add = (+)\<rparr>"

text \<open>
  Three listings.  The first has a header row, a row with a single cell and a row with two
  cells.  In the second the data row holds the anchor \<^verbatim>\<open><a name="top">top</a>\<close>, which has no
  \<^verbatim>\<open>href\<close>.  In the third the data row links to \<^verbatim>\<open>//[\<close>, a reference at which \<^verbatim>\<open>urljoin\<close>
  raises \<^verbatim>\<open>ValueError\<close>.
\<close>

definition three_row_page :: soup where
  "three_row_page =
     [Tag ''table'' []
        [Tag ''tr'' [] [Tag ''td'' [] [Text Plain ''Title''], Tag ''td'' [] [Text Plain ''Date'']],
         Tag ''tr'' [] [Tag ''td'' [] [Text Plain ''no date'']],
         Tag ''tr'' [] [Tag ''td'' [] [Text Plain ''Notice''], Tag ''td'' [] [Text Plain ''1 Jan'']]]]"

definition anchor_page :: soup where
  "anchor_page =
     [Tag ''table'' []
        [Tag ''tr'' [] [Tag ''th'' [] [Text Plain ''Title''], Tag ''th'' [] [Text Plain ''Date'']],
         Tag ''tr'' []
           [Tag ''td'' [] [Text Plain ''Notice''],
            Tag ''td'' [] [Text Plain ''1 Jan''],
            Tag ''td'' [] [Tag ''a'' [(''name'', ''top'')] [Text Plain ''top'']]]]]"

definition bracket_page :: soup where
  "bracket_page =
     [Tag ''table'' []
        [Tag ''tr'' [] [Tag ''th'' [] [Text Plain ''Title''], Tag ''th'' [] [Text Plain ''Date'']],
         Tag ''tr'' []
           [Tag ''td'' [] [Text Plain ''Notice''],
            Tag ''td'' [] [Text Plain ''1 Jan''],
            Tag ''td'' [] [Tag ''a'' [(''href'', ''//['')] [Text Plain ''view'']]]]]"

text \<open>
  The rows of a table that the specification has emitted: those after the first with at
  least two cells.  \<open>entry_of uj row r\<close> says that \<open>r\<close> is the entry the specification
  describes for the row \<open>row\<close>: the text of the first cell as title, of the second as date,
  and one link for each anchor of the row, in order, made of the anchor's text and its
  resolved \<^verbatim>\<open>href\<close>.
\<close>

definition data_rows :: "node \<Rightarrow> node list" where
  "data_rows table =
     filter (\<lambda>row. 2 \<le> length (row_cols row)) (drop 1 (find_all (named [''tr'']) (children table)))"

definition link_of :: "urljoin \<Rightarrow> node \<Rightarrow> link_entry \<Rightarrow> bool" where
  "link_of uj a l =
     (link_text l = get_text a \<and> get_abs_url uj (get a ''href'') = Inr (link_url l))"

definition entry_of :: "urljoin \<Rightarrow> node \<Rightarrow> table_row \<Rightarrow> bool" where
  "entry_of uj row r =
     (row_title r = get_text (row_cols row ! 0) \<and>
      row_date r = get_text (row_cols row ! 1) \<and>
      list_all2 (link_of uj) (row_anchors row) (row_links r))"

text \<open>
  What happens to the cache over time: a lookup is what every handler starts with
  (\<^verbatim>\<open>if key in cache: return cache[key]\<close>), an insertion is its \<^verbatim>\<open>cache[key] = data\<close>.
\<close>

datatype cache_op = Lookup real string | Insert real string cached

fun apply_op :: "timer_add \<Rightarrow> cache_op \<Rightarrow> cache \<Rightarrow> cache" where
  "apply_op add (Lookup t k) c =
     (if cache_contains t c k then snd (cache_getitem t c k) else c)"
| "apply_op add (Insert t k v) c = cache_setitem add t c k v"

definition run :: "timer_add \<Rightarrow> cache_op list \<Rightarrow> cache \<Rightarrow> cache" where
  "run add ops c = fold (apply_op add) ops c"

fun inserts_key :: "string \<Rightarrow> cache_op \<Rightarrow> bool" where
  "inserts_key k (Insert t k' v) = (k' = k)"
| "inserts_key k (Lookup t k') = False"

fun is_lookup :: "cache_op \<Rightarrow> bool" where
  "is_lookup (Lookup t k) = True"
| "is_lookup (Insert t k v) = False"

fun op_time :: "cache_op \<Rightarrow> real" where
  "op_time (Lookup t k) = t"
| "op_time (Insert t k v) = t"

text \<open>The key under which an endpoint stores its answer to a request, and the address it
  requests first from the upstream site when it has to.\<close>

fun cache_key :: "api_request \<Rightarrow> string" where
  "cache_key ApiHome = ''home''"
| "cache_key (ApiInstitute page) = page"
| "cache_key (ApiAcademics page) = ''acad_'' @ page"
| "cache_key (ApiDepartments dept_code deep) =
     dept_key dept_code (case deep of None \<Rightarrow> False | Some d \<Rightarrow> d)"
| "cache_key (ApiNotifications type) = (case type of None \<Rightarrow> ''news_updates'' | Some t \<Rightarrow> t)"

fun upstream :: "env \<Rightarrow> api_request \<Rightarrow> string" where
  "upstream env ApiHome = BASE_URL"
| "upstream env (ApiInstitute page) = BASE_URL @ ''instituteinfo.php?data='' @ page"
| "upstream env (ApiAcademics page) = BASE_URL @ ''instituteinfo.php?data='' @ page"
| "upstream env (ApiDepartments dept_code deep) =
     BASE_URL @ ''departmentinfo.php?department='' @ upper (str_upper env) dept_code"
| "upstream env (ApiNotifications type) =
     BASE_URL @ ''instituteinfo.php?data='' @ (case type of None \<Rightarrow> ''news_updates'' | Some t \<Rightarrow> t)"

text \<open>Whatever the cache \<open>c\<close> stores under the key \<open>k\<close> is the entry \<open>w\<close>.\<close>

definition only_entry :: "string \<Rightarrow> real \<times> cached \<Rightarrow> cache \<Rightarrow> bool" where
  "only_entry k w c = (\<forall>e \<in> set c. fst e = k \<longrightarrow> e = (k, w))"

text \<open>The cache \<open>c\<close> stores the entry \<open>w\<close> under the key \<open>k\<close>, once, with at most \<open>n\<close> entries
  used more recently.\<close>

definition kept :: "string \<Rightarrow> real \<times> cached \<Rightarrow> nat \<Rightarrow> cache \<Rightarrow> bool" where
  "kept k w n c =
     (\<exists>pre post. c = pre @ (k, w) # post \<and> k \<notin> fst ` set pre \<and> k \<notin> fst ` set post \<and>
                 length post \<le> n)"

text \<open>Two hundred institute pages: \<^verbatim>\<open>k\<close>, \<^verbatim>\<open>kk\<close>, \<^verbatim>\<open>kkk\<close>, ...\<close>

definition two_hundred_pages :: "string list" where
  "two_hundred_pages = map (\<lambda>n. replicate n CHR ''k'') [1..<201]"

section \<open>Basic facts\<close>

lemmas char_class_defs =
  is_alpha_def scheme_char_def is_lower_def is_upper_def lowers_def uppers_def
  to_upper_def to_lower_def ascii_def ascii_spaces_def unicode_spaces_def space_len_def
  upper_def title_def

lemmas dom_defs =
  find_all_def find_first_def find_all_at_def flatten_def named_def has_class_def
  has_attr_def get_def item_def get_text_def strip_def tokens_def descendants_def
  interesting_def string_containers_def

lemma bind_err_simps [simp]:
  "bind_err (Inl e) f = Inl e"
  "bind_err (Inr x) f = f x"
  by (simp_all add: bind_err_def)

lemma requests_store [simp]: "requests (store add now c k rs r) = rs"
  by (cases r) (simp_all add: store_def)

lemma result_store [simp]: "result (store add now c k rs r) = r"
  by (cases r) (simp_all add: store_def)

lemma cache_after_store:
  "cache_after (store add now c k rs r) =
     (case r of Inl e \<Rightarrow> c | Inr v \<Rightarrow> cache_setitem add now c k v)"
  by (cases r) (simp_all add: store_def)

lemma fetch_soup_site [simp]: "fetch_soup (site uj add page) url = Inr page"
  by (simp add: fetch_soup_def site_def)

lemma urljoin_site [simp]: "urljoin (site uj add page) = uj"
  by (simp add: site_def)

lemma timer_add_site [simp]: "timer_add (site uj add page) = add"
  by (simp add: site_def)

lemma empty_cache_contains [simp]: "\<not> cache_contains now [] k"
  by (simp add: cache_contains_def)

section \<open>The URL helper\<close>

lemma get_abs_url_absent:
  "get_abs_url uj None = Inr None"
  "get_abs_url uj (Some []) = Inr None"
  "get_abs_url uj (Some ''#'') = Inr None"
  by (simp_all add: get_abs_url_def)

lemma get_abs_url_http:
  "startswith p ''http'' \<Longrightarrow> get_abs_url uj (Some p) = Inr (Some p)"
  by (auto simp add: get_abs_url_def)

lemma get_abs_url_joined:
  "p \<noteq> [] \<Longrightarrow> p \<noteq> ''#'' \<Longrightarrow> \<not> startswith p ''http'' \<Longrightarrow>
   get_abs_url uj (Some p) = map_sum id Some (uj BASE_URL p)"
  by (simp add: get_abs_url_def)

lemma get_abs_url_some:
  "get_abs_url uj p = Inr (Some u) \<Longrightarrow>
   startswith u ''http'' \<or> (\<exists>q. p = Some q \<and> q \<noteq> [] \<and> q \<noteq> ''#'' \<and> uj BASE_URL q = Inr u)"
  by (cases p; cases "uj BASE_URL (the p)")
     (auto simp add: get_abs_url_def split: if_splits)

text \<open>
  Claim C3.  The URL helper is said to return its input unchanged when the input has a
  scheme and the base-joined address otherwise.  The code tests for the four letters
  \<^verbatim>\<open>http\<close> at the start instead.  The relative reference \<^verbatim>\<open>httpx/a.png\<close> has no scheme, so
  the specification's \<open>resolve\<close> joins it against the base; \<open>get_abs_url\<close> returns it as it
  is, whatever \<^verbatim>\<open>urljoin\<close> would have made of it.
\<close>

theorem get_abs_url_http_prefixed_relative:
  "\<not> has_scheme ''httpx/a.png'' \<and>
   resolve uj (Some ''httpx/a.png'') = map_sum id Some (uj BASE_URL ''httpx/a.png'') \<and>
   get_abs_url uj (Some ''httpx/a.png'') = Inr (Some ''httpx/a.png'')"
  by (simp add: has_scheme_def resolve_def get_abs_url_def char_class_defs)

section \<open>Cache keys\<close>

lemma dept_key_inject: "dept_key d1 b1 = dept_key d2 b2 \<longleftrightarrow> d1 = d2 \<and> b1 = b2"
proof
  assume eq: "dept_key d1 b1 = dept_key d2 b2"
  have flags: "b1 = b2"
  proof (rule ccontr)
    assume "b1 \<noteq> b2"
    with eq have "rev (d1 @ ''_True'') = rev (d2 @ ''_False'') \<or>
                  rev (d1 @ ''_False'') = rev (d2 @ ''_True'')"
      by (cases b1; cases b2) (simp_all add: dept_key_def)
    then show False by simp
  qed
  with eq show "d1 = d2 \<and> b1 = b2" by (simp add: dept_key_def)
next
  assume "d1 = d2 \<and> b1 = b2"
  then show "dept_key d1 b1 = dept_key d2 b2" by simp
qed

lemma hit_short_circuits:
  "cache_contains now c k \<Longrightarrow> requests (hit now c k) = [] \<and> (\<exists>v. result (hit now c k) = Inr v)"
  by (auto simp add: cache_contains_def hit_def cache_getitem_def split: option.splits)

text \<open>
  Claim C1.  Requests to different endpoints are said never to share a cache entry, in
  particular an institute page, a notification type and the home endpoint with equal
  strings.  The academics and departments handlers prefix their keys (\<^verbatim>\<open>acad_\<close>, \<^verbatim>\<open>dept_\<close>);
  the institute and notifications handlers use the bare parameter, and the home handler the
  fixed key \<^verbatim>\<open>home\<close>.  So after \<^verbatim>\<open>GET /api/home\<close> the request \<^verbatim>\<open>GET /api/institute/home\<close> is a
  cache hit on the home entry: it returns the home data, issues no upstream request, and is
  not the answer the institute handler gives to the same request on an empty cache.  In the
  same way \<^verbatim>\<open>GET /api/institute/tenders\<close> is served the table rows stored by
  \<^verbatim>\<open>GET /api/notifications?type=tenders\<close>.  The requests come at the times 0 and 60, where the
  clock's sums, 3600 and 3660, are exact.
\<close>

theorem institute_shares_entries_with_home_and_notifications:
  "serve (site uj (+) home_page) 0 ApiHome [] =
     \<lparr>result = Inr (HomeData \<lparr>announcements = [], stats = [],
                                 images = [Some ''https://rguktong.ac.in/logo.png'']\<rparr>),
      cache_after = [(''home'', 3600,
                      HomeData \<lparr>announcements = [], stats = [],
                                 images = [Some ''https://rguktong.ac.in/logo.png'']\<rparr>)],
      requests = [Get ''https://rguktong.ac.in/'']\<rparr> \<and>
   serve (site uj (+) home_page) 60 (ApiInstitute ''home'')
         (cache_after (serve (site uj (+) home_page) 0 ApiHome [])) =
     \<lparr>result = Inr (HomeData \<lparr>announcements = [], stats = [],
                                 images = [Some ''https://rguktong.ac.in/logo.png'']\<rparr>),
      cache_after = [(''home'', 3600,
                      HomeData \<lparr>announcements = [], stats = [],
                                 images = [Some ''https://rguktong.ac.in/logo.png'']\<rparr>)],
      requests = []\<rparr> \<and>
   serve (site uj (+) home_page) 60 (ApiInstitute ''home'') [] =
     \<lparr>result = Inr (InstituteData \<lparr>inst_page = ''home'', sections = [], profiles = []\<rparr>),
      cache_after = [(''home'', 3660,
                      InstituteData \<lparr>inst_page = ''home'', sections = [], profiles = []\<rparr>)],
      requests = [Get ''https://rguktong.ac.in/instituteinfo.php?data=home'']\<rparr> \<and>
   serve (site uj (+) []) 60 (ApiInstitute ''tenders'')
         (cache_after (serve (site uj (+) []) 0 (ApiNotifications (Some ''tenders'')) [])) =
     \<lparr>result = Inr (TableData []), cache_after = [(''tenders'', 3600, TableData [])],
      requests = []\<rparr>"
proof -
  have home: "serve (site uj (+) home_page) 0 ApiHome [] =
     \<lparr>result = Inr (HomeData \<lparr>announcements = [], stats = [],
                                 images = [Some ''https://rguktong.ac.in/logo.png'']\<rparr>),
      cache_after = [(''home'', 3600,
                      HomeData \<lparr>announcements = [], stats = [],
                                 images = [Some ''https://rguktong.ac.in/logo.png'']\<rparr>)],
      requests = [Get ''https://rguktong.ac.in/'']\<rparr>"
    by (simp add: home_api_def home_page_def home_extract_def has_src_def get_abs_url_def
        BASE_URL_def store_def dom_defs cache_setitem_def expire_def ttl_def)
  have hit_home: "serve env 60 (ApiInstitute ''home'') [(''home'', 3600, v)] =
     \<lparr>result = Inr v, cache_after = [(''home'', 3600, v)], requests = []\<rparr>" for env v
    by (simp add: institute_info_def cache_contains_def hit_def cache_getitem_def)
  have fresh: "serve (site uj (+) home_page) 60 (ApiInstitute ''home'') [] =
     \<lparr>result = Inr (InstituteData \<lparr>inst_page = ''home'', sections = [], profiles = []\<rparr>),
      cache_after = [(''home'', 3660,
                      InstituteData \<lparr>inst_page = ''home'', sections = [], profiles = []\<rparr>)],
      requests = [Get ''https://rguktong.ac.in/instituteinfo.php?data=home'']\<rparr>"
    by (simp add: institute_info_def institute_extract_def institute_sections_def
        content_area_def home_page_def Let_def BASE_URL_def store_def dom_defs
        cache_setitem_def expire_def ttl_def)
  have tenders: "serve (site uj (+) []) 0 (ApiNotifications (Some ''tenders'')) [] =
     \<lparr>result = Inr (TableData []), cache_after = [(''tenders'', 3600, TableData [])],
      requests = [Get ''https://rguktong.ac.in/instituteinfo.php?data=tenders'']\<rparr>"
    by (simp add: news_tenders_careers_def Let_def BASE_URL_def store_def
        parse_generic_table_def dom_defs cache_setitem_def expire_def ttl_def)
  have hit_tenders: "serve env 60 (ApiInstitute ''tenders'') [(''tenders'', 3600, v)] =
     \<lparr>result = Inr v, cache_after = [(''tenders'', 3600, v)], requests = []\<rparr>" for env v
    by (simp add: institute_info_def cache_contains_def hit_def cache_getitem_def)
  show ?thesis
    by (simp only: home fresh tenders hit_home hit_tenders reply.simps simp_thms)
qed

section \<open>The notification type\<close>

text \<open>
  Claim C2.  A request to \<^verbatim>\<open>/api/notifications\<close> whose \<^verbatim>\<open>type\<close> is outside the three listed
  names is said to be rejected before any upstream call.  The handler has no such check:
  for \<^verbatim>\<open>type=foo\<close> on an empty cache it requests \<^verbatim>\<open>instituteinfo.php?data=foo\<close> from the
  upstream site whatever the environment, and on a site whose page has no table it answers
  with the empty list and stores it under the key \<^verbatim>\<open>foo\<close>.
\<close>

theorem notification_type_outside_enum_is_fetched:
  "''foo'' \<notin> set notification_enum \<and>
   requests (serve env now (ApiNotifications (Some ''foo'')) []) =
     [Get ''https://rguktong.ac.in/instituteinfo.php?data=foo''] \<and>
   serve (site uj add []) now (ApiNotifications (Some ''foo'')) [] =
     \<lparr>result = Inr (TableData []), cache_after = [(''foo'', add now 3600, TableData [])],
      requests = [Get ''https://rguktong.ac.in/instituteinfo.php?data=foo'']\<rparr>"
proof -
  have "requests (serve env now (ApiNotifications (Some ''foo'')) []) =
          [Get ''https://rguktong.ac.in/instituteinfo.php?data=foo'']"
    by (simp add: news_tenders_careers_def Let_def BASE_URL_def)
  moreover have "serve (site uj add []) now (ApiNotifications (Some ''foo'')) [] =
     \<lparr>result = Inr (TableData []), cache_after = [(''foo'', add now 3600, TableData [])],
      requests = [Get ''https://rguktong.ac.in/instituteinfo.php?data=foo'']\<rparr>"
    by (simp add: news_tenders_careers_def Let_def BASE_URL_def store_def
        parse_generic_table_def dom_defs cache_setitem_def expire_def ttl_def)
  ultimately show ?thesis by (simp add: notification_enum_def)
qed

section \<open>The deep bio fetcher\<close>

text \<open>The fetcher has no exceptional result: its type is a dictionary.  The three ways it
  answers without a page:\<close>

lemma parse_deep_faculty_transport_failure:
  "post e = Inl x \<Longrightarrow> parse_deep_faculty ti post parser e = [(''error'', Str ''Deep fetch failed'')]"
  by (simp add: parse_deep_faculty_def)

lemma parse_deep_faculty_status:
  "post e = Inr resp \<Longrightarrow> status_code resp \<noteq> 200 \<Longrightarrow> parse_deep_faculty ti post parser e = []"
  by (simp add: parse_deep_faculty_def)

lemma parse_deep_faculty_parse_failure:
  "post e = Inr resp \<Longrightarrow> status_code resp = 200 \<Longrightarrow> parser (body resp) = Inl x \<Longrightarrow>
   parse_deep_faculty ti post parser e = [(''error'', Str ''Deep fetch failed'')]"
  by (simp add: parse_deep_faculty_def)

text \<open>
  Claim C4.  The keys of a successful fetch are said to be derived from the suffix of the
  block's identifier after \<^verbatim>\<open>content-\<close>.  The code removes the prefix with
  \<^verbatim>\<open>replace('content-', '')\<close>, which removes every occurrence: for the block
  \<^verbatim>\<open><div id="content-content-x">\<close> the suffix is \<^verbatim>\<open>content-x\<close> and its label \<^verbatim>\<open>Content-X\<close>, but the
  key the fetcher returns is \<^verbatim>\<open>X\<close>.
\<close>

theorem parse_deep_faculty_repeated_prefix:
  "parse_deep_faculty ti (\<lambda>e. Inr \<lparr>status_code = 200, body = b\<rparr>) (\<lambda>text. Inr bio_page) e =
     [(''X'', Str ''t'')] \<and>
   suffix_label ti ''content-content-x'' = ''Content-X''"
  by (simp add: parse_deep_faculty_def bio_page_def content_div_def suffix_label_def
      detail_key_def detail_value_def replace_def title_def char_class_defs dom_defs)

section \<open>Emitted addresses\<close>

text \<open>
  Claim C9.  Every address in a response is said to be absolute or resolved against the
  base.  Every address goes through \<open>get_abs_url\<close>, which lets a relative reference through
  when it starts with \<^verbatim>\<open>http\<close>: the listing whose row links to \<^verbatim>\<open>httpx/a.png\<close> is answered by
  \<^verbatim>\<open>/api/notifications\<close> with that reference as the link's address, which has no scheme and
  was not joined against anything.
\<close>

theorem notifications_emit_relative_address:
  "\<not> has_scheme ''httpx/a.png'' \<and>
   result (serve (site uj add listing_page) now (ApiNotifications (Some ''tenders'')) []) =
     Inr (TableData
           [\<lparr>row_title = ''Notice'', row_date = ''1 Jan'',
              row_links = [\<lparr>link_text = ''view'', link_url = Some ''httpx/a.png''\<rparr>]\<rparr>])"
  by (simp add: has_scheme_def news_tenders_careers_def Let_def BASE_URL_def listing_page_def
      parse_generic_table_def row_cols_def row_anchors_def row_link_def
      get_abs_url_def dom_defs char_class_defs)

section \<open>Staff extraction\<close>

lemma remdups_snoc: "remdups (ys @ [x]) = filter (\<lambda>y. y \<noteq> x) (remdups ys) @ [x]"
  by (induction ys) auto

lemma first_occurrences_Nil [simp]: "first_occurrences [] = []"
  by (simp add: first_occurrences_def)

lemma first_occurrences_Cons:
  "first_occurrences (x # xs) = x # filter (\<lambda>y. y \<noteq> x) (first_occurrences xs)"
  by (simp add: first_occurrences_def remdups_snoc rev_filter)

lemma distinct_first_occurrences [simp]: "distinct (first_occurrences xs)"
  by (simp add: first_occurrences_def)

lemma set_first_occurrences [simp]: "set (first_occurrences xs) = set xs"
  by (simp add: first_occurrences_def)

text \<open>One turn of the loop, by what the form is.\<close>

lemma staff_loop_no_input:
  "form_email f = None \<Longrightarrow> staff_loop uj (f # fs) seen acc = staff_loop uj fs seen acc"
  by (simp add: form_email_def)

lemma staff_loop_seen:
  "form_email f = Some e \<Longrightarrow> e \<in> seen \<Longrightarrow>
   staff_loop uj (f # fs) seen acc = staff_loop uj fs seen acc"
  by (auto simp add: form_email_def)

lemma staff_loop_no_card:
  "form_email f = Some e \<Longrightarrow> e \<notin> seen \<Longrightarrow> find_card f = None \<Longrightarrow>
   staff_loop uj (f # fs) seen acc = staff_loop uj fs (insert e seen) acc"
  by (auto simp add: form_email_def)

lemma staff_loop_card:
  "form_email f = Some e \<Longrightarrow> e \<notin> seen \<Longrightarrow> find_card f = Some c \<Longrightarrow>
   staff_loop uj (f # fs) seen acc =
     (case card_photo uj c of
        Inl x \<Rightarrow> Inl x
      | Inr ph \<Rightarrow> staff_loop uj fs (insert e seen) (acc @ [staff_of c e ph]))"
  by (auto simp add: form_email_def staff_of_def bind_err_def Let_def split: sum.splits)

declare staff_loop.simps(2) [simp del]

lemma first_form_Cons:
  "first_form (f # fs) e = (if form_email f = Some e then Some f else first_form fs e)"
  by (simp add: first_form_def)

lemma carded_Cons:
  "carded (f # fs) e = (if form_email f = Some e then find_card f \<noteq> None else carded fs e)"
  by (simp add: carded_def first_form_Cons)

lemma staff_loop_first_wins:
  "staff_loop uj forms seen acc = Inr out \<Longrightarrow>
   \<exists>new. out = acc @ new \<and>
     map email new = filter (\<lambda>e. e \<notin> seen \<and> carded forms e)
                       (first_occurrences (List.map_filter form_email forms)) \<and>
     (\<forall>r \<in> set new. from_first_form uj forms r)"
proof (induction forms arbitrary: seen acc)
  case Nil
  then show ?case by (simp add: List.map_filter_simps)
next
  case (Cons f fs)
  show ?case
  proof (cases "form_email f")
    case None
    with Cons.prems have "staff_loop uj fs seen acc = Inr out"
      by (simp add: staff_loop_no_input)
    from Cons.IH[OF this] obtain new where new: "out = acc @ new"
      "map email new = filter (\<lambda>e. e \<notin> seen \<and> carded fs e)
                       (first_occurrences (List.map_filter form_email fs))"
      "\<forall>r \<in> set new. from_first_form uj fs r" by blast
    have "\<forall>r \<in> set new. from_first_form uj (f # fs) r"
      using new(3) None by (simp add: from_first_form_def first_form_Cons)
    moreover have "map email new = filter (\<lambda>e. e \<notin> seen \<and> carded (f # fs) e)
                       (first_occurrences (List.map_filter form_email (f # fs)))"
      using new(2) None by (simp add: List.map_filter_simps carded_Cons)
    ultimately show ?thesis using new(1) by blast
  next
    case (Some e)
    note fe = this
    have mf: "first_occurrences (List.map_filter form_email (f # fs)) =
              e # filter (\<lambda>y. y \<noteq> e) (first_occurrences (List.map_filter form_email fs))"
      using Some by (simp add: List.map_filter_simps first_occurrences_Cons)
    show ?thesis
    proof (cases "e \<in> seen")
      case True
      with Cons.prems Some have "staff_loop uj fs seen acc = Inr out"
        by (simp add: staff_loop_seen)
      from Cons.IH[OF this] obtain new where new: "out = acc @ new"
        "map email new = filter (\<lambda>e. e \<notin> seen \<and> carded fs e)
                         (first_occurrences (List.map_filter form_email fs))"
        "\<forall>r \<in> set new. from_first_form uj fs r" by blast
      have "filter (\<lambda>x. x \<notin> seen \<and> carded fs x) (first_occurrences (List.map_filter form_email fs)) =
            filter (\<lambda>x. x \<notin> seen \<and> carded (f # fs) x)
              (filter (\<lambda>y. y \<noteq> e) (first_occurrences (List.map_filter form_email fs)))"
        using True Some by (auto simp add: carded_Cons intro!: filter_cong)
      then have emails: "map email new = filter (\<lambda>x. x \<notin> seen \<and> carded (f # fs) x)
                       (first_occurrences (List.map_filter form_email (f # fs)))"
        using new(2) True by (simp add: fe first_occurrences_Cons)
      have "\<forall>r \<in> set new. email r \<notin> seen"
      proof
        fix r assume "r \<in> set new"
        then have "email r \<in> set (map email new)" by simp
        then show "email r \<notin> seen" unfolding new(2) by simp
      qed
      then have "\<forall>r \<in> set new. from_first_form uj (f # fs) r"
        using new(3) True Some by (auto simp add: from_first_form_def first_form_Cons)
      with emails new(1) show ?thesis by blast
    next
      case False
      show ?thesis
      proof (cases "find_card f")
        case None
        with Cons.prems Some False have "staff_loop uj fs (insert e seen) acc = Inr out"
          by (simp add: staff_loop_no_card)
        from Cons.IH[OF this] obtain new where new: "out = acc @ new"
          "map email new = filter (\<lambda>x. x \<notin> insert e seen \<and> carded fs x)
                           (first_occurrences (List.map_filter form_email fs))"
          "\<forall>r \<in> set new. from_first_form uj fs r" by blast
        have "filter (\<lambda>x. x \<notin> insert e seen \<and> carded fs x) (first_occurrences (List.map_filter form_email fs)) =
              filter (\<lambda>x. x \<notin> seen \<and> carded (f # fs) x)
                (filter (\<lambda>y. y \<noteq> e) (first_occurrences (List.map_filter form_email fs)))"
          using Some by (auto simp add: carded_Cons intro!: filter_cong)
        then have emails: "map email new = filter (\<lambda>x. x \<notin> seen \<and> carded (f # fs) x)
                       (first_occurrences (List.map_filter form_email (f # fs)))"
          using new(2) None fe by (simp add: first_occurrences_Cons carded_Cons)
        have "\<forall>r \<in> set new. email r \<noteq> e"
        proof
          fix r assume "r \<in> set new"
          then have "email r \<in> set (map email new)" by simp
          then show "email r \<noteq> e" unfolding new(2) by auto
        qed
        then have "\<forall>r \<in> set new. from_first_form uj (f # fs) r"
          using new(3) Some by (auto simp add: from_first_form_def first_form_Cons)
        with emails new(1) show ?thesis by blast
      next
        case (Some c)
        note card = this
        from Cons.prems \<open>form_email f = Some e\<close> False card
        obtain ph where ph: "card_photo uj c = Inr ph"
          and rest: "staff_loop uj fs (insert e seen) (acc @ [staff_of c e ph]) = Inr out"
          by (auto simp add: staff_loop_card split: sum.splits)
        from Cons.IH[OF rest] obtain new where new: "out = (acc @ [staff_of c e ph]) @ new"
          "map email new = filter (\<lambda>x. x \<notin> insert e seen \<and> carded fs x)
                           (first_occurrences (List.map_filter form_email fs))"
          "\<forall>r \<in> set new. from_first_form uj fs r" by blast
        have "filter (\<lambda>x. x \<notin> insert e seen \<and> carded fs x) (first_occurrences (List.map_filter form_email fs)) =
              filter (\<lambda>x. x \<notin> seen \<and> carded (f # fs) x)
                (filter (\<lambda>y. y \<noteq> e) (first_occurrences (List.map_filter form_email fs)))"
          using \<open>form_email f = Some e\<close> by (auto simp add: carded_Cons intro!: filter_cong)
        then have emails: "map email (staff_of c e ph # new) =
                     filter (\<lambda>x. x \<notin> seen \<and> carded (f # fs) x)
                       (first_occurrences (List.map_filter form_email (f # fs)))"
          using new(2) card fe False
          by (simp add: first_occurrences_Cons carded_Cons staff_of_def)
        have "\<forall>r \<in> set new. email r \<noteq> e"
        proof
          fix r assume "r \<in> set new"
          then have "email r \<in> set (map email new)" by simp
          then show "email r \<noteq> e" unfolding new(2) by auto
        qed
        then have "\<forall>r \<in> set new. from_first_form uj (f # fs) r"
          using new(3) \<open>form_email f = Some e\<close>
          by (auto simp add: from_first_form_def first_form_Cons)
        moreover have "from_first_form uj (f # fs) (staff_of c e ph)"
          using \<open>form_email f = Some e\<close> card ph
          by (simp add: from_first_form_def first_form_Cons staff_of_def)
        ultimately have "\<forall>r \<in> set (staff_of c e ph # new). from_first_form uj (f # fs) r"
          by simp
        with emails new(1) show ?thesis
          by (intro exI[of _ "staff_of c e ph # new"]) simp
      qed
    qed
  qed
qed


lemma carded_in_forms:
  "carded forms e \<Longrightarrow> e \<in> set (List.map_filter form_email forms)"
proof -
  assume "carded forms e"
  then obtain f where "List.find (\<lambda>f. form_email f = Some e) forms = Some f"
    by (auto simp add: carded_def first_form_def split: option.splits)
  then have "f \<in> set forms" "form_email f = Some e"
    by (auto simp add: find_Some_iff)
  then have "e \<in> (the \<circ> form_email) ` {x \<in> set forms. form_email x \<noteq> None}"
    by force
  then show ?thesis
    by (simp add: List.map_filter_def)
qed

text \<open>
  Claim C6, amended.  When two or more profile forms carry the same e-mail, at most one
  record is emitted for it, and it is built from the card of the first such form in document
  order; there is exactly one when that first form lies inside a card container and none
  otherwise, whatever the later forms are.  The records follow the document order of the
  forms, and a form without an e-mail field contributes nothing.
\<close>

theorem staff_extract_first_form_wins:
  assumes "staff_extract uj soup = Inr out"
  shows "distinct (map email out) \<and>
         map email out =
           filter (carded (find_all_at profile_form soup))
             (first_occurrences (List.map_filter form_email (find_all_at profile_form soup))) \<and>
         (\<forall>e. e \<in> set (map email out) \<longleftrightarrow> carded (find_all_at profile_form soup) e) \<and>
         (\<forall>r \<in> set out. from_first_form uj (find_all_at profile_form soup) r)"
proof -
  let ?forms = "find_all_at profile_form soup"
  from assms have "staff_loop uj ?forms {} [] = Inr out"
    by (simp add: staff_extract_def)
  from staff_loop_first_wins[OF this]
  have emails: "map email out = filter (carded ?forms) (first_occurrences (List.map_filter form_email ?forms))"
    and built: "\<forall>r \<in> set out. from_first_form uj ?forms r"
    by simp_all
  have "distinct (map email out)"
    unfolding emails by simp
  moreover have "\<forall>e. e \<in> set (map email out) \<longleftrightarrow> carded ?forms e"
    unfolding emails using carded_in_forms[of ?forms] by auto
  ultimately show ?thesis using emails built by blast
qed

lemma staff_page_staff:
  "staff_extract uj staff_page =
     Inr [\<lparr>staff_name = ''Dr A'', email = Some ''a@x'', photo = None, bio = None\<rparr>,
          \<lparr>staff_name = ''Dr B'', email = Some ''b@x'', photo = None, bio = None\<rparr>]"
  by (simp add: staff_extract_def staff_page_def profile_form_for_def profile_form_def
      email_input_def find_card_def card_name_def card_photo_def staff_loop.simps
      dom_defs char_class_defs)

theorem staff_extract_first_form_wins_witness:
  "staff_extract no_join staff_page =
     Inr [\<lparr>staff_name = ''Dr A'', email = Some ''a@x'', photo = None, bio = None\<rparr>,
          \<lparr>staff_name = ''Dr B'', email = Some ''b@x'', photo = None, bio = None\<rparr>] \<and>
   map form_email (find_all_at profile_form staff_page) =
     [Some (Some ''a@x''), Some (Some ''a@x''), Some (Some ''b@x''), None] \<and>
   [Some ''a@x'', Some ''b@x''] =
     filter (carded (find_all_at profile_form staff_page))
       (first_occurrences (List.map_filter form_email (find_all_at profile_form staff_page))) \<and>
   from_first_form no_join (find_all_at profile_form staff_page)
     \<lparr>staff_name = ''Dr A'', email = Some ''a@x'', photo = None, bio = None\<rparr>"
proof -
  have forms: "map form_email (find_all_at profile_form staff_page) =
     [Some (Some ''a@x''), Some (Some ''a@x''), Some (Some ''b@x''), None]"
    by (simp add: staff_page_def profile_form_for_def profile_form_def form_email_def
        email_input_def dom_defs char_class_defs)
  from staff_extract_first_form_wins[OF staff_page_staff[of no_join]] forms
  show ?thesis
    by (simp add: staff_page_staff)
qed

theorem staff_extract_cardless_first_form:
  "map form_email (find_all_at profile_form cardless_page) =
     [Some (Some ''a@x''), Some (Some ''a@x'')] \<and>
   staff_extract no_join cardless_page = Inr []"
  by (simp add: cardless_page_def profile_form_for_def profile_form_def form_email_def
      staff_extract_def email_input_def find_card_def staff_loop.simps dom_defs char_class_defs)

section \<open>The deep fan-out\<close>

lemma length_fold_update: "length (fold (\<lambda>i s. s[i := g i]) ixs slots) = length slots"
  by (induction ixs arbitrary: slots) simp_all

lemma nth_fold_update:
  "j < length slots \<Longrightarrow>
   fold (\<lambda>i s. s[i := g i]) ixs slots ! j = (if j \<in> set ixs then g j else slots ! j)"
proof (induction ixs arbitrary: slots)
  case Nil
  then show ?case by simp
next
  case (Cons i ixs)
  have "fold (\<lambda>i s. s[i := g i]) ixs (slots[i := g i]) ! j =
        (if j \<in> set ixs then g j else slots[i := g i] ! j)"
    using Cons by simp
  then show ?case using Cons.prems by (auto simp add: nth_list_update)
qed

lemma map_filter_id_Some: "List.map_filter id (map Some xs) = xs"
  by (induction xs) (simp_all add: List.map_filter_simps)

lemma gather_in_task_order: "gather order tasks = tasks"
proof -
  let ?n = "length tasks"
  have "fold (\<lambda>i s. s[i := Some (tasks ! i)]) (sort_key order [0..<?n]) (replicate ?n None)
        = map Some tasks"
    by (rule nth_equalityI) (simp_all add: length_fold_update nth_fold_update)
  then show ?thesis by (simp add: gather_def map_filter_id_Some)
qed

lemma attach_bios_enumerate:
  "k + length bs \<le> length st \<Longrightarrow>
   \<exists>r. attach_bios (enumerate k bs) st = Inr r \<and> length r = length st \<and>
       (\<forall>j < length st. r ! j = (if k \<le> j \<and> j < k + length bs
                                  then (st ! j)\<lparr>bio := Some (bs ! (j - k))\<rparr> else st ! j))"
proof (induction bs arbitrary: k st)
  case Nil
  then show ?case by auto
next
  case (Cons b bs)
  let ?st = "st[k := (st ! k)\<lparr>bio := Some b\<rparr>]"
  have k: "k < length st" using Cons.prems by simp
  have "Suc k + length bs \<le> length ?st" using Cons.prems by simp
  from Cons.IH[OF this] obtain r where r: "attach_bios (enumerate (Suc k) bs) ?st = Inr r"
    "length r = length st"
    "\<forall>j < length st. r ! j = (if Suc k \<le> j \<and> j < Suc k + length bs
                                  then (?st ! j)\<lparr>bio := Some (bs ! (j - Suc k))\<rparr> else ?st ! j)"
    by auto
  have "attach_bios (enumerate k (b # bs)) st = Inr r" using r(1) k by simp
  moreover have "\<forall>j < length st. r ! j = (if k \<le> j \<and> j < k + length (b # bs)
                                  then (st ! j)\<lparr>bio := Some ((b # bs) ! (j - k))\<rparr> else st ! j)"
  proof (intro allI impI)
    fix j assume j: "j < length st"
    show "r ! j = (if k \<le> j \<and> j < k + length (b # bs)
                                  then (st ! j)\<lparr>bio := Some ((b # bs) ! (j - k))\<rparr> else st ! j)"
    proof (cases "j = k")
      case True
      then show ?thesis using r(3) j by simp
    next
      case False
      then show ?thesis using r(3) j by (auto simp add: nth_Cons' Suc_diff_le)
    qed
  qed
  ultimately show ?case using r(2) by blast
qed

lemma deep_fetch_positional:
  "deep_fetch ti post parser order deep st =
     Inr (if deep then map (\<lambda>s. s\<lparr>bio := Some (parse_deep_faculty ti post parser (email s))\<rparr>) st else st)"
proof (cases deep)
  case False
  then show ?thesis by (simp add: deep_fetch_def)
next
  case True
  let ?bs = "map (\<lambda>s. parse_deep_faculty ti post parser (email s)) st"
  from attach_bios_enumerate[of 0 ?bs st] obtain r where
    r: "attach_bios (enumerate 0 ?bs) st = Inr r" "length r = length st"
       "\<forall>j < length st. r ! j = (st ! j)\<lparr>bio := Some (?bs ! j)\<rparr>"
    by auto
  have "r = map (\<lambda>s. s\<lparr>bio := Some (parse_deep_faculty ti post parser (email s))\<rparr>) st"
    by (rule nth_equalityI) (simp_all add: r)
  then show ?thesis using True r(1) by (simp add: deep_fetch_def gather_in_task_order)
qed


text \<open>The extracted records carry no bio.\<close>

lemma staff_loop_no_bio:
  "staff_loop uj forms seen acc = Inr out \<Longrightarrow> \<forall>s \<in> set acc. bio s = None \<Longrightarrow>
   \<forall>s \<in> set out. bio s = None"
proof (induction forms arbitrary: seen acc)
  case Nil
  then show ?case by (simp add: staff_loop.simps)
next
  case (Cons f forms)
  show ?case
  proof (cases "email_input f")
    case None
    with Cons.prems(1) have "staff_loop uj forms seen acc = Inr out"
      by (simp add: staff_loop.simps)
    then show ?thesis using Cons.prems(2) by (rule Cons.IH)
  next
    case (Some inp)
    note inp = this
    show ?thesis
    proof (cases "get inp ''value'' \<in> seen")
      case True
      with Cons.prems(1) inp have "staff_loop uj forms seen acc = Inr out"
        by (simp add: staff_loop.simps)
      then show ?thesis using Cons.prems(2) by (rule Cons.IH)
    next
      case False
      note fresh = this
      show ?thesis
      proof (cases "find_card f")
        case None
        with Cons.prems(1) inp fresh
        have "staff_loop uj forms (insert (get inp ''value'') seen) acc = Inr out"
          by (simp add: staff_loop.simps)
        then show ?thesis using Cons.prems(2) by (rule Cons.IH)
      next
        case (Some c)
        with Cons.prems(1) inp fresh obtain ph where rest:
          "staff_loop uj forms (insert (get inp ''value'') seen)
             (acc @ [\<lparr>staff_name = card_name c, email = get inp ''value'', photo = ph,
                      bio = None\<rparr>]) = Inr out"
          by (cases "card_photo uj c") (simp_all add: staff_loop.simps Let_def)
        have "\<forall>s \<in> set (acc @ [\<lparr>staff_name = card_name c, email = get inp ''value'',
                                     photo = ph, bio = None\<rparr>]). bio s = None"
          using Cons.prems(2) by simp
        with rest show ?thesis by (rule Cons.IH)
      qed
    qed
  qed
qed

text \<open>
  Claim C5.  On a cache miss with the page fetched and the staff list \<open>st\<close> extracted, the
  endpoint returns \<open>st\<close> itself when \<^verbatim>\<open>deep\<close> is false, and no record of \<open>st\<close> has a bio.  When
  \<^verbatim>\<open>deep\<close> is true it issues one bio request per record and returns the list in which the
  record at each position has the bio fetched for that record's e-mail.  The answer is the
  same for every finishing order of the bio requests.
\<close>

theorem department_staff_bios_by_position:
  assumes miss: "\<not> cache_contains now c (dept_key dept_code deep)"
    and page: "fetch_soup env (BASE_URL @ ''departmentinfo.php?department='' @ upper (str_upper env) dept_code)
                 = Inr soup"
    and staff: "staff_extract (urljoin env) soup = Inr st"
  shows "result (department_staff env now dept_code deep c) =
           Inr (DeptData \<lparr>dept = dept_code,
                  faculties =
                    (if deep
                     then map (\<lambda>s. s\<lparr>bio := Some (parse_deep_faculty (str_title env) (client_post env)
                                                      (lxml env) (email s))\<rparr>) st
                     else st)\<rparr>) \<and>
         requests (department_staff env now dept_code deep c) =
           Get (BASE_URL @ ''departmentinfo.php?department='' @ upper (str_upper env) dept_code)
             # (if deep then map (\<lambda>s. Post (email s)) st else []) \<and>
         (\<forall>s \<in> set st. bio s = None) \<and>
         department_staff (env\<lparr>delay := order\<rparr>) now dept_code deep c =
           department_staff env now dept_code deep c \<and>
         (\<forall>xs. deep_fetch (str_title env) (client_post env) (lxml env) order deep xs =
                 Inr (if deep
                      then map (\<lambda>s. s\<lparr>bio := Some (parse_deep_faculty (str_title env) (client_post env)
                                                       (lxml env) (email s))\<rparr>) xs
                      else xs))"
proof (intro conjI)
  show "\<forall>xs. deep_fetch (str_title env) (client_post env) (lxml env) order deep xs =
                 Inr (if deep
                      then map (\<lambda>s. s\<lparr>bio := Some (parse_deep_faculty (str_title env) (client_post env)
                                                       (lxml env) (email s))\<rparr>) xs
                      else xs)"
    by (simp add: deep_fetch_positional)
  show "result (department_staff env now dept_code deep c) =
           Inr (DeptData \<lparr>dept = dept_code,
                  faculties =
                    (if deep
                     then map (\<lambda>s. s\<lparr>bio := Some (parse_deep_faculty (str_title env) (client_post env)
                                                      (lxml env) (email s))\<rparr>) st
                     else st)\<rparr>)"
    using miss page staff by (simp add: department_staff_def Let_def deep_fetch_positional)
  show "requests (department_staff env now dept_code deep c) =
           Get (BASE_URL @ ''departmentinfo.php?department='' @ upper (str_upper env) dept_code)
             # (if deep then map (\<lambda>s. Post (email s)) st else [])"
    using miss page staff by (simp add: department_staff_def Let_def)
  from staff have "staff_loop (urljoin env) (find_all_at profile_form soup) {} [] = Inr st"
    by (simp add: staff_extract_def)
  then show "\<forall>s \<in> set st. bio s = None"
    by (rule staff_loop_no_bio) simp
  show "department_staff (env\<lparr>delay := order\<rparr>) now dept_code deep c =
          department_staff env now dept_code deep c"
    by (simp add: department_staff_def Let_def deep_fetch_positional fetch_soup_def)
qed

theorem department_staff_bios_by_position_witness:
  "\<not> cache_contains 0 [] (dept_key ''cse'' True) \<and>
   fetch_soup staff_site (BASE_URL @ ''departmentinfo.php?department='' @ upper (str_upper staff_site) ''cse'')
     = Inr staff_page \<and>
   staff_extract (urljoin staff_site) staff_page =
     Inr [\<lparr>staff_name = ''Dr A'', email = Some ''a@x'', photo = None, bio = None\<rparr>,
          \<lparr>staff_name = ''Dr B'', email = Some ''b@x'', photo = None, bio = None\<rparr>] \<and>
   result (department_staff staff_site 0 ''cse'' True []) =
     Inr (DeptData \<lparr>dept = ''cse'', faculties =
       [\<lparr>staff_name = ''Dr A'', email = Some ''a@x'', photo = None,
          bio = Some [(''Email'', Str ''a@x'')]\<rparr>,
        \<lparr>staff_name = ''Dr B'', email = Some ''b@x'', photo = None,
          bio = Some [(''Email'', Str ''b@x'')]\<rparr>]\<rparr>) \<and>
   requests (department_staff staff_site 0 ''cse'' True []) =
     [Get ''https://rguktong.ac.in/departmentinfo.php?department=CSE'',
      Post (Some ''a@x''), Post (Some ''b@x'')]"
proof -
  have miss: "\<not> cache_contains 0 [] (dept_key ''cse'' True)" by simp
  have page: "fetch_soup staff_site (BASE_URL @ ''departmentinfo.php?department='' @ upper (str_upper staff_site) ''cse'')
                = Inr staff_page"
    by (simp add: fetch_soup_def staff_site_def)
  have staff: "staff_extract (urljoin staff_site) staff_page =
     Inr [\<lparr>staff_name = ''Dr A'', email = Some ''a@x'', photo = None, bio = None\<rparr>,
          \<lparr>staff_name = ''Dr B'', email = Some ''b@x'', photo = None, bio = None\<rparr>]"
    by (rule staff_page_staff)
  have bios:
    "parse_deep_faculty (str_title staff_site) (client_post staff_site) (lxml staff_site) (Some ''a@x'') =
       [(''Email'', Str ''a@x'')]"
    "parse_deep_faculty (str_title staff_site) (client_post staff_site) (lxml staff_site) (Some ''b@x'') =
       [(''Email'', Str ''b@x'')]"
    by (simp_all add: parse_deep_faculty_def staff_site_def content_div_def
        detail_key_def detail_value_def replace_def title_def char_class_defs dom_defs)
  have up: "upper f ''cse'' = ''CSE''" for f by (simp add: upper_def char_class_defs)
  have "result (department_staff staff_site 0 ''cse'' True []) =
     Inr (DeptData \<lparr>dept = ''cse'', faculties =
       [\<lparr>staff_name = ''Dr A'', email = Some ''a@x'', photo = None,
          bio = Some [(''Email'', Str ''a@x'')]\<rparr>,
        \<lparr>staff_name = ''Dr B'', email = Some ''b@x'', photo = None,
          bio = Some [(''Email'', Str ''b@x'')]\<rparr>]\<rparr>) \<and>
   requests (department_staff staff_site 0 ''cse'' True []) =
     [Get ''https://rguktong.ac.in/departmentinfo.php?department=CSE'',
      Post (Some ''a@x''), Post (Some ''b@x'')]"
    using department_staff_bios_by_position[OF miss page staff]
    by (simp add: bios up BASE_URL_def)
  with miss page staff show ?thesis by blast
qed



section \<open>The table extractor\<close>

lemma table_rows_filter:
  "table_rows uj rows =
     traverse
       (\<lambda>row. bind_err (traverse (row_link uj) (row_anchors row))
                (\<lambda>ls. Inr \<lparr>row_title = get_text (row_cols row ! 0),
                            row_date = get_text (row_cols row ! 1), row_links = ls\<rparr>))
       (filter (\<lambda>row. 2 \<le> length (row_cols row)) rows)"
proof (induction rows)
  case Nil
  then show ?case by simp
next
  case (Cons row rows)
  show ?case
  proof (cases "row_cols row")
    case Nil
    then show ?thesis using Cons by simp
  next
    case (Cons c0 cs)
    note outer = this
    show ?thesis
    proof (cases cs)
      case Nil
      then show ?thesis using outer Cons.IH by simp
    next
      case (Cons c1 cols)
      then show ?thesis using outer Cons.IH
        by (simp add: bind_err_def split: sum.splits)
    qed
  qed
qed

text \<open>A comprehension completes when each of its elements does, and its result is then the
  list of their values.\<close>

lemma traverse_Inr_iff:
  "traverse f xs = Inr ys \<longleftrightarrow> list_all2 (\<lambda>x y. f x = Inr y) xs ys"
proof
  show "traverse f xs = Inr ys \<Longrightarrow> list_all2 (\<lambda>x y. f x = Inr y) xs ys"
    by (induction xs arbitrary: ys) (auto split: sum.splits)
  show "list_all2 (\<lambda>x y. f x = Inr y) xs ys \<Longrightarrow> traverse f xs = Inr ys"
    by (induction rule: list_all2_induct) simp_all
qed

lemma traverse_completes:
  "(\<exists>ys. traverse f xs = Inr ys) \<longleftrightarrow> (\<forall>x \<in> set xs. \<exists>y. f x = Inr y)"
  by (induction xs) (auto split: sum.splits)

lemma row_link_anchor:
  assumes "a \<in> set (row_anchors row)"
  shows "row_link uj a = Inr l \<longleftrightarrow> link_of uj a l"
proof -
  from assms obtain h where h: "get a ''href'' = Some h"
    by (auto simp add: row_anchors_def find_all_def has_attr_def)
  show ?thesis
    by (cases l; cases "get_abs_url uj (Some h)")
       (auto simp add: row_link_def item_def link_of_def h)
qed

lemma row_entry:
  "bind_err (traverse (row_link uj) (row_anchors row))
     (\<lambda>ls. Inr \<lparr>row_title = get_text (row_cols row ! 0),
                 row_date = get_text (row_cols row ! 1), row_links = ls\<rparr>) = Inr r \<longleftrightarrow>
   entry_of uj row r"
proof -
  have links: "traverse (row_link uj) (row_anchors row) = Inr ls \<longleftrightarrow>
               list_all2 (link_of uj) (row_anchors row) ls" for ls
    unfolding traverse_Inr_iff
    by (rule list.rel_cong) (simp_all add: row_link_anchor)
  show ?thesis
    by (cases r; cases "traverse (row_link uj) (row_anchors row)")
       (auto simp add: entry_of_def links[symmetric])
qed

lemma row_completes:
  "(\<exists>r. bind_err (traverse (row_link uj) (row_anchors row))
          (\<lambda>ls. Inr \<lparr>row_title = get_text (row_cols row ! 0),
                      row_date = get_text (row_cols row ! 1), row_links = ls\<rparr>) = Inr r) \<longleftrightarrow>
   (\<forall>a \<in> set (row_anchors row). \<exists>u. get_abs_url uj (get a ''href'') = Inr u)"
proof -
  have "(\<exists>r. bind_err (traverse (row_link uj) (row_anchors row))
          (\<lambda>ls. Inr \<lparr>row_title = get_text (row_cols row ! 0),
                      row_date = get_text (row_cols row ! 1), row_links = ls\<rparr>) = Inr r) \<longleftrightarrow>
        (\<exists>ls. traverse (row_link uj) (row_anchors row) = Inr ls)"
    by (cases "traverse (row_link uj) (row_anchors row)") simp_all
  also have "\<dots> \<longleftrightarrow> (\<forall>a \<in> set (row_anchors row). \<exists>l. row_link uj a = Inr l)"
    by (rule traverse_completes)
  also have "\<dots> \<longleftrightarrow> (\<forall>a \<in> set (row_anchors row). \<exists>l. link_of uj a l)"
    by (simp add: row_link_anchor)
  also have "\<dots> \<longleftrightarrow> (\<forall>a \<in> set (row_anchors row). \<exists>u. get_abs_url uj (get a ''href'') = Inr u)"
  proof -
    have "(\<exists>l. link_of uj a l) \<longleftrightarrow> (\<exists>u. get_abs_url uj (get a ''href'') = Inr u)" for a
    proof
      assume "\<exists>l. link_of uj a l"
      then show "\<exists>u. get_abs_url uj (get a ''href'') = Inr u"
        by (auto simp add: link_of_def)
    next
      assume "\<exists>u. get_abs_url uj (get a ''href'') = Inr u"
      then obtain u where "get_abs_url uj (get a ''href'') = Inr u" ..
      then have "link_of uj a \<lparr>link_text = get_text a, link_url = u\<rparr>"
        by (simp add: link_of_def)
      then show "\<exists>l. link_of uj a l" ..
    qed
    then show ?thesis by simp
  qed
  finally show ?thesis .
qed

lemma parse_generic_table_traverse:
  "parse_generic_table uj soup =
     (case find_first (named [''table'']) soup of
        None \<Rightarrow> Inr []
      | Some table \<Rightarrow>
          traverse
            (\<lambda>row. bind_err (traverse (row_link uj) (row_anchors row))
                     (\<lambda>ls. Inr \<lparr>row_title = get_text (row_cols row ! 0),
                                 row_date = get_text (row_cols row ! 1), row_links = ls\<rparr>))
            (data_rows table))"
  by (simp add: parse_generic_table_def table_rows_filter data_rows_def split: option.splits)

text \<open>
  Claim C7, amended.  With a table on the page, the extractor drops the first row of the
  table whatever it holds and goes through the others in order.  When the extraction
  completes, a row is emitted exactly when it has at least two \<^verbatim>\<open>td\<close> cells, with the text of
  the first as title, of the second as date, and one link entry for every anchor in the row
  that carries an \<^verbatim>\<open>href\<close> attribute, in whatever cell it stands; rows with fewer cells are
  passed over.  The extraction completes exactly when the \<^verbatim>\<open>href\<close> of every such anchor in a
  row with at least two cells resolves; when resolving one of them raises, the extraction
  raises and no row is emitted at all: so it is for a row that links to \<^verbatim>\<open>//[\<close>, where
  \<^verbatim>\<open>urljoin\<close> raises \<^verbatim>\<open>ValueError\<close>.  The listing of a header row, a one-cell row and a two-cell
  row gives exactly one row.  An anchor without \<^verbatim>\<open>href\<close> gives no link entry.
\<close>

theorem parse_generic_table_rows:
  "(\<forall>table. find_first (named [''table'']) soup = Some table \<longrightarrow>
      (\<forall>out. parse_generic_table uj soup = Inr out \<longleftrightarrow>
             list_all2 (entry_of uj) (data_rows table) out) \<and>
      ((\<exists>out. parse_generic_table uj soup = Inr out) \<longleftrightarrow>
         (\<forall>row \<in> set (data_rows table). \<forall>a \<in> set (row_anchors row).
            \<exists>u. get_abs_url uj (get a ''href'') = Inr u)) \<and>
      (\<forall>row \<in> set (data_rows table). \<forall>a \<in> set (row_anchors row). \<forall>e.
         get_abs_url uj (get a ''href'') = Inl e \<longrightarrow>
         (\<exists>e'. parse_generic_table uj soup = Inl e'))) \<and>
   parse_generic_table uj soup =
     (case find_first (named [''table'']) soup of
        None \<Rightarrow> Inr []
      | Some table \<Rightarrow>
          traverse
            (\<lambda>row. bind_err (traverse (row_link uj) (row_anchors row))
                     (\<lambda>ls. Inr \<lparr>row_title = get_text (row_cols row ! 0),
                                 row_date = get_text (row_cols row ! 1), row_links = ls\<rparr>))
            (filter (\<lambda>row. 2 \<le> length (row_cols row))
               (drop 1 (find_all (named [''tr'']) (children table))))) \<and>
   row_cols = (\<lambda>row. filter (named [''td'']) (descendants row)) \<and>
   row_anchors = (\<lambda>row. filter (\<lambda>t. named [''a''] t \<and> get t ''href'' \<noteq> None) (descendants row)) \<and>
   row_link uj =
     (\<lambda>a. case get a ''href'' of
             None \<Rightarrow> Inl KeyError
           | Some h \<Rightarrow> map_sum id (\<lambda>u. \<lparr>link_text = get_text a, link_url = u\<rparr>)
                        (get_abs_url uj (Some h))) \<and>
   parse_generic_table uj three_row_page =
     Inr [\<lparr>row_title = ''Notice'', row_date = ''1 Jan'', row_links = []\<rparr>] \<and>
   (uj BASE_URL ''//['' = Inl ValueError \<longrightarrow> parse_generic_table uj bracket_page = Inl ValueError)"
proof (intro conjI allI impI)
  fix table
  assume table: "find_first (named [''table'']) soup = Some table"
  let ?row = "\<lambda>row. bind_err (traverse (row_link uj) (row_anchors row))
                     (\<lambda>ls. Inr \<lparr>row_title = get_text (row_cols row ! 0),
                                 row_date = get_text (row_cols row ! 1), row_links = ls\<rparr>)"
  have parse: "parse_generic_table uj soup = traverse ?row (data_rows table)"
    using table by (simp add: parse_generic_table_traverse)
  show "parse_generic_table uj soup = Inr out \<longleftrightarrow>
        list_all2 (entry_of uj) (data_rows table) out" for out
    unfolding parse traverse_Inr_iff row_entry by (rule refl)
  show completes: "(\<exists>out. parse_generic_table uj soup = Inr out) \<longleftrightarrow>
        (\<forall>row \<in> set (data_rows table). \<forall>a \<in> set (row_anchors row).
            \<exists>u. get_abs_url uj (get a ''href'') = Inr u)"
    unfolding parse traverse_completes row_completes by (rule refl)
  show "\<forall>row \<in> set (data_rows table). \<forall>a \<in> set (row_anchors row). \<forall>e.
         get_abs_url uj (get a ''href'') = Inl e \<longrightarrow>
         (\<exists>e'. parse_generic_table uj soup = Inl e')"
  proof (intro ballI allI impI)
    fix row a e
    assume "row \<in> set (data_rows table)" "a \<in> set (row_anchors row)"
      "get_abs_url uj (get a ''href'') = Inl e"
    then have "\<not> (\<exists>out. parse_generic_table uj soup = Inr out)"
      unfolding completes by force
    then show "\<exists>e'. parse_generic_table uj soup = Inl e'"
      by (cases "parse_generic_table uj soup") simp_all
  qed
next
  show "parse_generic_table uj soup =
     (case find_first (named [''table'']) soup of
        None \<Rightarrow> Inr []
      | Some table \<Rightarrow>
          traverse
            (\<lambda>row. bind_err (traverse (row_link uj) (row_anchors row))
                     (\<lambda>ls. Inr \<lparr>row_title = get_text (row_cols row ! 0),
                                 row_date = get_text (row_cols row ! 1), row_links = ls\<rparr>))
            (filter (\<lambda>row. 2 \<le> length (row_cols row))
               (drop 1 (find_all (named [''tr'']) (children table)))))"
    by (simp add: parse_generic_table_def table_rows_filter split: option.splits)
  show "row_cols = (\<lambda>row. filter (named [''td'']) (descendants row))"
    by (rule ext) (simp add: row_cols_def find_all_def descendants_def)
  show "row_anchors = (\<lambda>row. filter (\<lambda>t. named [''a''] t \<and> get t ''href'' \<noteq> None) (descendants row))"
    by (rule ext) (simp add: row_anchors_def find_all_def descendants_def has_attr_def)
  show "row_link uj =
     (\<lambda>a. case get a ''href'' of
             None \<Rightarrow> Inl KeyError
           | Some h \<Rightarrow> map_sum id (\<lambda>u. \<lparr>link_text = get_text a, link_url = u\<rparr>)
                        (get_abs_url uj (Some h)))"
    by (rule ext) (simp add: row_link_def item_def bind_err_def split: sum.splits option.splits)
  show "parse_generic_table uj three_row_page =
     Inr [\<lparr>row_title = ''Notice'', row_date = ''1 Jan'', row_links = []\<rparr>]"
    by (simp add: parse_generic_table_def three_row_page_def row_cols_def row_anchors_def
        dom_defs char_class_defs)
next
  assume "uj BASE_URL ''//['' = Inl ValueError"
  then show "parse_generic_table uj bracket_page = Inl ValueError"
    by (simp add: parse_generic_table_def bracket_page_def row_cols_def row_anchors_def
        row_link_def get_abs_url_def dom_defs char_class_defs)
qed

theorem parse_generic_table_rows_witness:
  "find_first (named [''table'']) listing_page \<noteq> None \<and>
   parse_generic_table no_join listing_page =
     Inr [\<lparr>row_title = ''Notice'', row_date = ''1 Jan'',
           row_links = [\<lparr>link_text = ''view'', link_url = Some ''httpx/a.png''\<rparr>]\<rparr>] \<and>
   list_all2 (entry_of no_join) (data_rows (the (find_first (named [''table'']) listing_page)))
     [\<lparr>row_title = ''Notice'', row_date = ''1 Jan'',
       row_links = [\<lparr>link_text = ''view'', link_url = Some ''httpx/a.png''\<rparr>]\<rparr>] \<and>
   no_join BASE_URL ''//['' = Inl ValueError \<and>
   parse_generic_table no_join bracket_page = Inl ValueError"
proof -
  obtain table where table: "find_first (named [''table'']) listing_page = Some table"
    by (simp add: listing_page_def dom_defs)
  have out: "parse_generic_table no_join listing_page =
     Inr [\<lparr>row_title = ''Notice'', row_date = ''1 Jan'',
           row_links = [\<lparr>link_text = ''view'', link_url = Some ''httpx/a.png''\<rparr>]\<rparr>]"
    by (simp add: parse_generic_table_def listing_page_def row_cols_def row_anchors_def
        row_link_def get_abs_url_def dom_defs char_class_defs)
  have raises: "no_join BASE_URL ''//['' = Inl ValueError"
    by (simp add: no_join_def)
  note rows = parse_generic_table_rows[of listing_page no_join]
  have "list_all2 (entry_of no_join) (data_rows table)
     [\<lparr>row_title = ''Notice'', row_date = ''1 Jan'',
       row_links = [\<lparr>link_text = ''view'', link_url = Some ''httpx/a.png''\<rparr>]\<rparr>]"
    using rows[THEN conjunct1] table out by blast
  moreover have "parse_generic_table no_join bracket_page = Inl ValueError"
    using parse_generic_table_rows[of listing_page no_join] raises by blast
  ultimately show ?thesis using table out raises by simp
qed

theorem parse_generic_table_anchor_without_href:
  "find_all (named [''a'']) anchor_page = [Tag ''a'' [(''name'', ''top'')] [Text Plain ''top'']] \<and>
   parse_generic_table no_join anchor_page =
     Inr [\<lparr>row_title = ''Notice'', row_date = ''1 Jan'', row_links = []\<rparr>]"
  by (simp add: parse_generic_table_def anchor_page_def row_cols_def row_anchors_def
      dom_defs char_class_defs)

section \<open>Missing lookup targets\<close>





section \<open>The cache over time\<close>

lemma map_of_filter_other:
  "x \<noteq> k \<Longrightarrow> map_of (filter (\<lambda>e. fst e \<noteq> k) c) x = map_of c x"
  by (induction c) auto

lemma map_of_filter_self: "map_of (filter (\<lambda>e. fst e \<noteq> k) c) k = None"
  by (induction c) auto

lemma map_of_move_to_end:
  "map_of c k = Some w \<Longrightarrow> map_of (filter (\<lambda>e. fst e \<noteq> k) c @ [(k, w)]) = map_of c"
proof
  fix x
  assume "map_of c k = Some w"
  then show "map_of (filter (\<lambda>e. fst e \<noteq> k) c @ [(k, w)]) x = map_of c x"
    by (cases "x = k")
       (simp_all add: map_add_def map_of_filter_other map_of_filter_self split: option.splits)
qed

lemma map_of_lookup: "map_of (apply_op add (Lookup t k') c) = map_of c"
proof (cases "map_of c k'")
  case None
  then show ?thesis by (simp add: cache_contains_def)
next
  case (Some w)
  then show ?thesis
    using map_of_move_to_end[OF Some]
    by (cases w) (simp add: cache_contains_def cache_getitem_def)
qed

lemma set_setitem: "set (cache_setitem add t c k v) \<subseteq> insert (k, add t ttl, v) (set c)"
proof -
  have "set (drop n (expire t c)) \<subseteq> set c" for n
    using set_drop_subset[of n "expire t c"] by (auto simp add: expire_def)
  then show ?thesis
    by (auto simp add: cache_setitem_def Let_def expire_def)
qed

lemma map_of_setitem_self: "map_of (cache_setitem add T c k v) k = Some (add T ttl, v)"
  by (simp add: cache_setitem_def Let_def map_add_def map_of_filter_self)

lemma map_of_lookups:
  "list_all is_lookup ops \<Longrightarrow> map_of (run add ops c) = map_of c"
proof (induction ops arbitrary: c)
  case Nil
  then show ?case by (simp add: run_def)
next
  case (Cons op ops)
  then obtain t k where op: "op = Lookup t k" by (cases op) simp_all
  have "map_of (run add ops (apply_op add op c)) = map_of (apply_op add op c)"
    using Cons by simp
  then show ?case by (simp add: run_def op map_of_lookup del: apply_op.simps)
qed

text \<open>As long as the key is not inserted again, whatever is stored under it is the entry
  of the first insertion.\<close>

lemma only_entry_setitem_self: "only_entry k (add T ttl, v) (cache_setitem add T c k v)"
  by (auto simp add: only_entry_def cache_setitem_def Let_def)

lemma only_entry_apply:
  assumes "only_entry k w c" and "\<not> inserts_key k op"
  shows "only_entry k w (apply_op add op c)"
proof (cases op)
  case (Lookup t k')
  show ?thesis
  proof (cases "map_of c k'")
    case None
    then show ?thesis using assms Lookup by (simp add: cache_contains_def)
  next
    case (Some w')
    then have "(k', w') \<in> set c" by (rule map_of_SomeD)
    then have "k' = k \<Longrightarrow> w' = w" using assms(1) by (auto simp add: only_entry_def)
    then show ?thesis using assms(1) Lookup Some
      by (auto simp add: only_entry_def cache_contains_def cache_getitem_def)
  qed
next
  case (Insert t k' v')
  then have "k' \<noteq> k" using assms(2) by simp
  then show ?thesis using assms(1) Insert set_setitem[of add t c k' v']
    by (auto simp add: only_entry_def)
qed

lemma only_entry_run:
  "only_entry k w c \<Longrightarrow> \<not> list_ex (inserts_key k) ops \<Longrightarrow> only_entry k w (run add ops c)"
proof (induction ops arbitrary: c)
  case Nil
  then show ?case by (simp add: run_def)
next
  case (Cons op ops)
  then have "only_entry k w (apply_op add op c)" by (simp add: only_entry_apply)
  with Cons have "only_entry k w (run add ops (apply_op add op c))" by simp
  then show ?case by (simp add: run_def)
qed

lemma only_entry_contains:
  assumes "only_entry k (e, v) c" and "cache_contains t c k"
  shows "t < e \<and> fst (cache_getitem t c k) = Inr v"
proof -
  from assms(2) obtain e' v' where m: "map_of c k = Some (e', v')" and t: "t < e'"
    by (auto simp add: cache_contains_def split: option.splits)
  from m have "(k, e', v') \<in> set c" by (rule map_of_SomeD)
  with assms(1) have "e' = e" "v' = v" by (auto simp add: only_entry_def)
  with m t show ?thesis by (simp add: cache_getitem_def)
qed

text \<open>The cache never grows beyond its capacity.\<close>

lemma length_filter_key:
  "map_of c k \<noteq> None \<Longrightarrow> length (filter (\<lambda>e. fst e \<noteq> k) c) < length c"
proof -
  assume "map_of c k \<noteq> None"
  then obtain w where "(k, w) \<in> set c" by (auto dest: map_of_SomeD)
  then show ?thesis by (intro length_filter_less[of "(k, w)"]) simp_all
qed

lemma length_setitem:
  "length c \<le> maxsize \<Longrightarrow> length (cache_setitem add now c k v) \<le> maxsize"
proof -
  assume c: "length c \<le> maxsize"
  let ?live = "expire now c"
  have live: "length ?live \<le> maxsize"
    using c le_trans[OF length_filter_le] by (simp add: expire_def)
  show ?thesis
  proof (cases "map_of ?live k")
    case None
    have "length (filter (\<lambda>e. fst e \<noteq> k) (drop (length ?live + 1 - maxsize) ?live))
            \<le> length (drop (length ?live + 1 - maxsize) ?live)"
      by (rule length_filter_le)
    also have "\<dots> < maxsize" using live by (simp add: maxsize_def)
    finally show ?thesis using None by (simp add: cache_setitem_def Let_def)
  next
    case (Some w)
    then have "length (filter (\<lambda>e. fst e \<noteq> k) ?live) < length ?live"
      by (intro length_filter_key) simp
    with live Some show ?thesis by (simp add: cache_setitem_def Let_def)
  qed
qed

lemma length_apply: "length c \<le> maxsize \<Longrightarrow> length (apply_op add op c) \<le> maxsize"
proof (cases op)
  case (Lookup t k)
  assume c: "length c \<le> maxsize"
  show ?thesis
  proof (cases "map_of c k")
    case None
    then show ?thesis using c Lookup by (simp add: cache_contains_def)
  next
    case (Some w)
    then have "length (filter (\<lambda>e. fst e \<noteq> k) c) < length c"
      by (intro length_filter_key) simp
    then show ?thesis using c Lookup Some
      by (auto simp add: cache_contains_def cache_getitem_def split: prod.splits)
  qed
next
  case (Insert t k v)
  assume "length c \<le> maxsize"
  then show ?thesis using Insert by (simp add: length_setitem)
qed

lemma length_run: "length c \<le> maxsize \<Longrightarrow> length (run add ops c) \<le> maxsize"
proof (induction ops arbitrary: c)
  case Nil
  then show ?case by (simp add: run_def)
next
  case (Cons op ops)
  then have "length (run add ops (apply_op add op c)) \<le> maxsize"
    using length_apply by blast
  then show ?case by (simp add: run_def)
qed

text \<open>
  An entry is evicted only when it is the least recently used one of a full cache.  Each
  operation under another key puts at most one more entry behind it, so it takes
  \<open>maxsize\<close> of them to evict it.
\<close>

lemma kept_contains: "kept k (e, v) n c \<Longrightarrow> t < e \<Longrightarrow> cache_contains t c k"
proof -
  assume "kept k (e, v) n c" and t: "t < e"
  then obtain pre post where c: "c = pre @ (k, e, v) # post" and pre: "k \<notin> fst ` set pre"
    by (auto simp add: kept_def)
  from pre have "map_of pre k = None" by (simp add: map_of_eq_None_iff)
  then have "map_of c k = Some (e, v)" by (simp add: c map_add_def)
  with t show ?thesis by (simp add: cache_contains_def)
qed

lemma kept_setitem_self: "kept k (add T ttl, v) 0 (cache_setitem add T c k v)"
proof -
  let ?pre = "filter (\<lambda>e. fst e \<noteq> k)
                (if map_of (expire T c) k = None
                 then drop (length (expire T c) + 1 - maxsize) (expire T c) else expire T c)"
  have "cache_setitem add T c k v = ?pre @ (k, add T ttl, v) # []"
    by (simp add: cache_setitem_def Let_def)
  moreover have "k \<notin> fst ` set ?pre" by auto
  ultimately show ?thesis unfolding kept_def by (intro exI[of _ ?pre] exI[of _ "[]"]) simp
qed

lemma kept_lookup:
  assumes "kept k w n c"
  shows "kept k w (Suc n) (apply_op add (Lookup t k') c)"
proof -
  from assms obtain pre post where c: "c = pre @ (k, w) # post" and pre: "k \<notin> fst ` set pre"
    and post: "k \<notin> fst ` set post" and n: "length post \<le> n"
    by (auto simp add: kept_def)
  show ?thesis
  proof (cases "cache_contains t c k'")
    case False
    then have "apply_op add (Lookup t k') c = c" by simp
    with c pre post n show ?thesis unfolding kept_def
      by (intro exI[of _ pre] exI[of _ post]) simp
  next
    case True
    then obtain w' where w': "map_of c k' = Some w'"
      by (auto simp add: cache_contains_def split: option.splits)
    then have moved: "apply_op add (Lookup t k') c = filter (\<lambda>e. fst e \<noteq> k') c @ [(k', w')]"
      using True by (cases w') (simp add: cache_getitem_def)
    show ?thesis
    proof (cases "k' = k")
      case True
      from pre have "map_of pre k = None" by (simp add: map_of_eq_None_iff)
      then have "map_of c k = Some w" by (simp add: c map_add_def)
      with w' True have [simp]: "w' = w" by simp
      have "apply_op add (Lookup t k') c = filter (\<lambda>e. fst e \<noteq> k) c @ (k, w) # []"
        using moved True by simp
      moreover have "k \<notin> fst ` set (filter (\<lambda>e. fst e \<noteq> k) c)" by auto
      ultimately show ?thesis unfolding kept_def
        by (intro exI[of _ "filter (\<lambda>e. fst e \<noteq> k) c"] exI[of _ "[]"]) simp
    next
      case False
      let ?pre = "filter (\<lambda>e. fst e \<noteq> k') pre"
      let ?post = "filter (\<lambda>e. fst e \<noteq> k') post @ [(k', w')]"
      have "apply_op add (Lookup t k') c = ?pre @ (k, w) # ?post"
        using moved False by (simp add: c)
      moreover have "k \<notin> fst ` set ?pre" using pre by auto
      moreover have "k \<notin> fst ` set ?post" using post False by auto
      moreover have "length ?post \<le> Suc n"
        using n le_trans[OF length_filter_le, of post n "\<lambda>e. fst e \<noteq> k'"] by simp
      ultimately show ?thesis unfolding kept_def
        by (intro exI[of _ ?pre] exI[of _ ?post]) simp
    qed
  qed
qed

lemma kept_insert:
  assumes "kept k (e, v) n c" and "k' \<noteq> k" and "t < e" and "n + 2 \<le> maxsize"
  shows "kept k (e, v) (Suc n) (cache_setitem add t c k' v')"
proof -
  from assms(1) obtain pre post where c: "c = pre @ (k, e, v) # post"
    and pre: "k \<notin> fst ` set pre" and post: "k \<notin> fst ` set post" and n: "length post \<le> n"
    by (auto simp add: kept_def)
  let ?P = "\<lambda>(k, expires, v). t < expires"
  let ?lpre = "filter ?P pre"
  let ?lpost = "filter ?P post"
  have live: "expire t c = ?lpre @ (k, e, v) # ?lpost"
    using assms(3) by (simp add: expire_def c)
  have lpost: "length ?lpost \<le> n"
    using n le_trans[OF length_filter_le, of post n ?P] by simp
  define d where "d = (if map_of (expire t c) k' = None
                       then length (expire t c) + 1 - maxsize else 0)"
  have "length (expire t c) = length ?lpre + 1 + length ?lpost"
    by (simp add: live)
  then have "length (expire t c) + 1 - maxsize \<le> length ?lpre"
    using lpost assms(4) by linarith
  then have d: "d \<le> length ?lpre"
    by (simp add: d_def)
  have "(if map_of (expire t c) k' = None
         then drop (length (expire t c) + 1 - maxsize) (expire t c) else expire t c) =
        drop d (expire t c)"
    by (simp add: d_def)
  also have "\<dots> = drop d ?lpre @ (k, e, v) # ?lpost"
    unfolding live using d by simp
  finally have room: "(if map_of (expire t c) k' = None
               then drop (length (expire t c) + 1 - maxsize) (expire t c) else expire t c) =
              drop d ?lpre @ (k, e, v) # ?lpost" .
  let ?pre = "filter (\<lambda>e. fst e \<noteq> k') (drop d ?lpre)"
  let ?post = "filter (\<lambda>e. fst e \<noteq> k') ?lpost @ [(k', add t ttl, v')]"
  have "cache_setitem add t c k' v' = ?pre @ (k, e, v) # ?post"
    using assms(2) unfolding cache_setitem_def Let_def room by simp
  moreover have "k \<notin> fst ` set ?pre"
  proof -
    have "set ?pre \<subseteq> set pre"
      using set_drop_subset[of d ?lpre] by auto
    with pre show ?thesis by blast
  qed
  moreover have "k \<notin> fst ` set ?post" using post assms(2) by auto
  moreover have "length ?post \<le> Suc n"
    using lpost le_trans[OF length_filter_le, of ?lpost n "\<lambda>e. fst e \<noteq> k'"] by simp
  ultimately show ?thesis unfolding kept_def
    by (intro exI[of _ ?pre] exI[of _ ?post]) simp
qed

lemma kept_apply:
  assumes "kept k (e, v) n c" and "\<not> inserts_key k op" and "op_time op < e"
    and "n + 2 \<le> maxsize"
  shows "kept k (e, v) (Suc n) (apply_op add op c)"
proof (cases op)
  case (Lookup t k')
  then show ?thesis using assms(1) by (simp only: kept_lookup)
next
  case (Insert t k' v')
  then show ?thesis using assms by (simp add: kept_insert)
qed

lemma kept_run:
  "kept k (e, v) n c \<Longrightarrow> \<not> list_ex (inserts_key k) ops \<Longrightarrow>
   list_all (\<lambda>op. op_time op < e) ops \<Longrightarrow> n + length ops < maxsize \<Longrightarrow>
   kept k (e, v) (n + length ops) (run add ops c)"
proof (induction ops arbitrary: n c)
  case Nil
  then show ?case by (simp add: run_def)
next
  case (Cons op ops)
  have "kept k (e, v) (Suc n) (apply_op add op c)"
    using Cons.prems by (intro kept_apply) simp_all
  then have "kept k (e, v) (Suc n + length ops) (run add ops (apply_op add op c))"
    using Cons.prems by (intro Cons.IH) simp_all
  then show ?case by (simp add: run_def)
qed

text \<open>What an endpoint does with the cache: on a hit it answers from the cache without an
  upstream request, on a miss its first request goes to the upstream page.\<close>

lemma serve_hit:
  "cache_contains t c (cache_key req) \<Longrightarrow> serve env t req c = hit t c (cache_key req)"
  by (cases req)
     (simp_all add: home_api_def institute_info_def academic_records_def department_staff_def
        news_tenders_careers_def)

lemma serve_miss:
  "\<not> cache_contains t c (cache_key req) \<Longrightarrow>
   \<exists>rest. requests (serve env t req c) = Get (upstream env req) # rest"
  by (cases req)
     (simp_all add: home_api_def institute_info_def academic_records_def department_staff_def
        news_tenders_careers_def Let_def)

text \<open>
  Claim C10, amended.  A value is inserted under a key at time \<open>T\<close>, and the key is not
  inserted again.  The entry expires at the sum of \<open>T\<close> and 3600 as the cache's clock computes
  it, \<open>add T ttl\<close>.  No lookup at or after that time finds the key, whether the entry is
  still stored or not, and the endpoint that uses the key then goes to the upstream site
  first.  A lookup that finds the key does so before that time and gets the inserted value
  unchanged, and the endpoint answers with it without an upstream request.  Every lookup
  before that time finds the key when fewer than 200 cache operations came in between, none
  of them later than the lookup, insertions under other keys included; and also when nothing
  but lookups came in between, however many.  A cache within its capacity of 200 entries
  stays within it.  What does not hold is that every lookup before expiry finds the value:
  200 insertions under other keys evict the entry.
\<close>

theorem cache_entry_lifetime:
  assumes "\<not> list_ex (inserts_key k) ops"
  shows "(add T ttl \<le> t \<longrightarrow> \<not> cache_contains t (run add ops (cache_setitem add T c k v)) k) \<and>
         (cache_contains t (run add ops (cache_setitem add T c k v)) k \<longrightarrow>
            t < add T ttl \<and>
            fst (cache_getitem t (run add ops (cache_setitem add T c k v)) k) = Inr v) \<and>
         (list_all is_lookup ops \<longrightarrow> t < add T ttl \<longrightarrow>
            cache_contains t (run add ops (cache_setitem add T c k v)) k) \<and>
         (length ops < maxsize \<longrightarrow> list_all (\<lambda>op. op_time op \<le> t) ops \<longrightarrow> t < add T ttl \<longrightarrow>
            cache_contains t (run add ops (cache_setitem add T c k v)) k) \<and>
         (cache_key req = k \<longrightarrow>
            (cache_contains t (run add ops (cache_setitem add T c k v)) k \<longrightarrow>
               requests (serve env t req (run add ops (cache_setitem add T c k v))) = [] \<and>
               result (serve env t req (run add ops (cache_setitem add T c k v))) = Inr v) \<and>
            (\<not> cache_contains t (run add ops (cache_setitem add T c k v)) k \<longrightarrow>
               (\<exists>rest. requests (serve env t req (run add ops (cache_setitem add T c k v))) =
                         Get (upstream env req) # rest))) \<and>
         (length c \<le> maxsize \<longrightarrow> length (run add ops (cache_setitem add T c k v)) \<le> maxsize) \<and>
         ttl = 3600 \<and> maxsize = 200"
proof -
  let ?c = "run add ops (cache_setitem add T c k v)"
  have only: "only_entry k (add T ttl, v) ?c"
    using assms by (intro only_entry_run only_entry_setitem_self)
  have seen: "t < add T ttl \<and> fst (cache_getitem t ?c k) = Inr v" if "cache_contains t ?c k"
    using only that by (rule only_entry_contains)
  then have late: "\<not> cache_contains t ?c k" if "add T ttl \<le> t"
    using that by force
  have reads: "cache_contains t ?c k" if "list_all is_lookup ops" "t < add T ttl"
    using that by (simp add: cache_contains_def map_of_lookups map_of_setitem_self)
  have survives: "cache_contains t ?c k"
    if "length ops < maxsize" "list_all (\<lambda>op. op_time op \<le> t) ops" "t < add T ttl"
  proof -
    have "list_all (\<lambda>op. op_time op < add T ttl) ops"
      using that(2,3) by (auto simp add: list_all_iff)
    then have "kept k (add T ttl, v) (0 + length ops) ?c"
      using assms that(1) by (intro kept_run kept_setitem_self) simp_all
    then show ?thesis using that(3) by (rule kept_contains)
  qed
  have served: "requests (serve env t req ?c) = [] \<and> result (serve env t req ?c) = Inr v"
    if "cache_key req = k" "cache_contains t ?c k"
  proof -
    have "serve env t req ?c = hit t ?c k"
      using that serve_hit[of t ?c req env] by simp
    moreover have "fst (cache_getitem t ?c k) = Inr v"
      using seen that(2) by simp
    ultimately show ?thesis by (simp add: hit_def split: prod.splits)
  qed
  have fetched: "\<exists>rest. requests (serve env t req ?c) = Get (upstream env req) # rest"
    if "cache_key req = k" "\<not> cache_contains t ?c k"
    using that serve_miss[of t ?c req env] by simp
  have size: "length ?c \<le> maxsize" if "length c \<le> maxsize"
    using that by (intro length_run length_setitem)
  have nums: "ttl = 3600" "maxsize = 200" by (simp_all add: ttl_def maxsize_def)
  show ?thesis
  proof (intro conjI impI)
    show "ttl = 3600" "maxsize = 200" by (rule nums)+
  qed (use seen late reads survives served fetched size in blast)+
qed


theorem cache_entry_lifetime_witness:
  "\<not> list_ex (inserts_key ''home'') [Lookup 10 ''home'', Insert 20 ''tenders'' (TableData [])] \<and>
   length [Lookup 10 ''home'', Insert 20 ''tenders'' (TableData [])] < maxsize \<and>
   list_all (\<lambda>op. op_time op \<le> 100) [Lookup 10 ''home'', Insert 20 ''tenders'' (TableData [])] \<and>
   (100 :: real) < 0 + ttl \<and>
   cache_key ApiHome = ''home'' \<and>
   cache_contains 100
     (run (+) [Lookup 10 ''home'', Insert 20 ''tenders'' (TableData [])]
        (cache_setitem (+) 0 [] ''home'' (HomeData \<lparr>announcements = [], stats = [], images = []\<rparr>))) ''home'' \<and>
   fst (cache_getitem 100
     (run (+) [Lookup 10 ''home'', Insert 20 ''tenders'' (TableData [])]
        (cache_setitem (+) 0 [] ''home'' (HomeData \<lparr>announcements = [], stats = [], images = []\<rparr>))) ''home'') = Inr (HomeData \<lparr>announcements = [], stats = [], images = []\<rparr>) \<and>
   requests (serve (site no_join (+) home_page) 100 ApiHome
     (run (+) [Lookup 10 ''home'', Insert 20 ''tenders'' (TableData [])]
        (cache_setitem (+) 0 [] ''home'' (HomeData \<lparr>announcements = [], stats = [], images = []\<rparr>)))) = [] \<and>
   result (serve (site no_join (+) home_page) 100 ApiHome
     (run (+) [Lookup 10 ''home'', Insert 20 ''tenders'' (TableData [])]
        (cache_setitem (+) 0 [] ''home'' (HomeData \<lparr>announcements = [], stats = [], images = []\<rparr>)))) = Inr (HomeData \<lparr>announcements = [], stats = [], images = []\<rparr>) \<and>
   \<not> cache_contains 3600
     (run (+) [Lookup 10 ''home'', Insert 20 ''tenders'' (TableData [])]
        (cache_setitem (+) 0 [] ''home'' (HomeData \<lparr>announcements = [], stats = [], images = []\<rparr>))) ''home'' \<and>
   (\<exists>rest. requests (serve (site no_join (+) home_page) 3600 ApiHome
     (run (+) [Lookup 10 ''home'', Insert 20 ''tenders'' (TableData [])]
        (cache_setitem (+) 0 [] ''home'' (HomeData \<lparr>announcements = [], stats = [], images = []\<rparr>)))) =
      Get ''https://rguktong.ac.in/'' # rest) \<and>
   length (run (+) [Lookup 10 ''home'', Insert 20 ''tenders'' (TableData [])]
        (cache_setitem (+) 0 [] ''home'' (HomeData \<lparr>announcements = [], stats = [], images = []\<rparr>))) \<le> maxsize"
proof -
  let ?ops = "[Lookup 10 ''home'', Insert 20 ''tenders'' (TableData [])]"
  let ?c = "run (+) ?ops (cache_setitem (+) 0 [] ''home'' (HomeData \<lparr>announcements = [], stats = [], images = []\<rparr>))"
  let ?env = "site no_join (+) home_page"
  have ops: "\<not> list_ex (inserts_key ''home'') ?ops" by simp
  have few: "length ?ops < maxsize" by (simp add: maxsize_def)
  have times: "list_all (\<lambda>op. op_time op \<le> 100) ?ops" by simp
  have before: "(100 :: real) < 0 + ttl" by (simp add: ttl_def)
  have due: "0 + ttl \<le> (3600 :: real)" by (simp add: ttl_def)
  have key: "cache_key ApiHome = ''home''" by simp
  have url: "upstream ?env ApiHome = ''https://rguktong.ac.in/''" by (simp add: BASE_URL_def)
  note early = cache_entry_lifetime[OF ops, of "(+)" 0 100 "[]" "HomeData \<lparr>announcements = [], stats = [], images = []\<rparr>" ApiHome ?env]
  note late = cache_entry_lifetime[OF ops, of "(+)" 0 3600 "[]" "HomeData \<lparr>announcements = [], stats = [], images = []\<rparr>" ApiHome ?env]
  have visible: "cache_contains 100 ?c ''home''"
    using early[THEN conjunct2, THEN conjunct2, THEN conjunct2, THEN conjunct1]
      few times before by blast
  have got: "fst (cache_getitem 100 ?c ''home'') = Inr (HomeData \<lparr>announcements = [], stats = [], images = []\<rparr>)"
    using early[THEN conjunct2, THEN conjunct1] visible by blast
  have served: "requests (serve ?env 100 ApiHome ?c) = [] \<and>
                result (serve ?env 100 ApiHome ?c) = Inr (HomeData \<lparr>announcements = [], stats = [], images = []\<rparr>)"
    using early[THEN conjunct2, THEN conjunct2, THEN conjunct2, THEN conjunct2, THEN conjunct1]
      key visible by blast
  have gone: "\<not> cache_contains 3600 ?c ''home''"
    using late[THEN conjunct1] due by blast
  have "\<exists>rest. requests (serve ?env 3600 ApiHome ?c) = Get (upstream ?env ApiHome) # rest"
    using late[THEN conjunct2, THEN conjunct2, THEN conjunct2, THEN conjunct2, THEN conjunct1]
      key gone by blast
  then have fetched: "\<exists>rest. requests (serve ?env 3600 ApiHome ?c) =
                        Get ''https://rguktong.ac.in/'' # rest"
    unfolding url .
  have "length ([] :: cache) \<le> maxsize" by simp
  then have size: "length ?c \<le> maxsize"
    using early[THEN conjunct2, THEN conjunct2, THEN conjunct2, THEN conjunct2,
                THEN conjunct2, THEN conjunct1] by blast
  from ops few times before key visible got served gone fetched size show ?thesis
    by blast
qed

text \<open>The home entry, inserted at time 0, is gone at time 2 after two hundred other pages
  were stored at time 1, and the home endpoint goes to the upstream site again.\<close>

lemma setitem_fresh:
  assumes "map_of c k = None" and "\<forall>e \<in> set c. now < fst (snd e)"
  shows "cache_setitem add now c k v = drop (length c + 1 - maxsize) c @ [(k, add now ttl, v)]"
proof -
  have live: "expire now c = c"
    using assms(2) by (auto simp add: expire_def intro!: filter_True)
  have "k \<notin> fst ` set c" using assms(1) by (simp add: map_of_eq_None_iff)
  then have "\<forall>e \<in> set (drop (length c + 1 - maxsize) c). fst e \<noteq> k"
    by (auto dest: in_set_dropD)
  then have "filter (\<lambda>e. fst e \<noteq> k) (drop (length c + 1 - maxsize) c) = drop (length c + 1 - maxsize) c"
    by (intro filter_True) simp
  then show ?thesis using assms(1) by (simp add: cache_setitem_def Let_def live)
qed

lemma fill_fresh:
  assumes "distinct ks" and "set ks \<inter> fst ` set c = {}" and "\<forall>e \<in> set c. now < fst (snd e)"
    and "length c \<le> maxsize" and "now < add now ttl"
  shows "fold (\<lambda>k c. cache_setitem add now c k v) ks c =
           drop (length c + length ks - maxsize) (c @ map (\<lambda>k. (k, add now ttl, v)) ks)"
  using assms
proof (induction ks arbitrary: c)
  case Nil
  then show ?case by simp
next
  case (Cons k ks)
  let ?d = "length c + 1 - maxsize"
  let ?c = "drop ?d c @ [(k, add now ttl, v)]"
  let ?new = "\<lambda>k. (k, add now ttl, v)"
  have "map_of c k = None" using Cons.prems(2) by (auto simp add: map_of_eq_None_iff)
  then have step: "cache_setitem add now c k v = ?c"
    using Cons.prems(3) by (rule setitem_fresh)
  have keys: "fst ` set ?c \<subseteq> insert k (fst ` set c)"
    by (auto dest: in_set_dropD)
  have 1: "set ks \<inter> fst ` set ?c = {}"
    using Cons.prems(1,2) keys by auto
  have 2: "\<forall>e \<in> set ?c. now < fst (snd e)"
    using Cons.prems(3,5) by (auto dest: in_set_dropD)
  have 3: "distinct ks" using Cons.prems(1) by simp
  have d: "?d \<le> length c" by (simp add: maxsize_def)
  have 4: "length ?c \<le> maxsize" using Cons.prems(4) by (simp add: maxsize_def)
  have "fold (\<lambda>k c. cache_setitem add now c k v) (k # ks) c =
        fold (\<lambda>k c. cache_setitem add now c k v) ks ?c"
    by (simp only: fold_simps step)
  also have "\<dots> = drop (length ?c + length ks - maxsize) (?c @ map ?new ks)"
    using 3 1 2 4 Cons.prems(5) by (rule Cons.IH)
  also have "?c @ map ?new ks = drop ?d (c @ map ?new (k # ks))"
    using d by simp
  also have "drop (length ?c + length ks - maxsize) (drop ?d (c @ map ?new (k # ks))) =
             drop (length ?c + length ks - maxsize + ?d) (c @ map ?new (k # ks))"
    by (rule drop_drop)
  also have "length ?c + length ks - maxsize + ?d = length c + length (k # ks) - maxsize"
    using d by (simp add: maxsize_def)
  finally show ?case .
qed

lemma run_inserts:
  "run add (map (\<lambda>k. Insert now k v) ks) c = fold (\<lambda>k c. cache_setitem add now c k v) ks c"
  by (induction ks arbitrary: c) (simp_all add: run_def)

lemma two_hundred_pages_facts:
  "distinct two_hundred_pages" "length two_hundred_pages = 200" "''home'' \<notin> set two_hundred_pages"
proof -
  have "inj_on (\<lambda>n. replicate n CHR ''k'') (set [1..<201])"
    by (rule inj_onI) (metis length_replicate)
  then show "distinct two_hundred_pages"
    by (simp add: two_hundred_pages_def distinct_map)
  show "length two_hundred_pages = 200" by (simp add: two_hundred_pages_def)
  have "''home'' \<noteq> replicate n CHR ''k''" for n
    by (cases n) simp_all
  then show "''home'' \<notin> set two_hundred_pages"
    by (auto simp add: two_hundred_pages_def)
qed

theorem cache_entry_evicted_within_the_hour:
  "cache_contains 1 (cache_setitem (+) 0 [] ''home'' (HomeData \<lparr>announcements = [], stats = [], images = []\<rparr>)) ''home'' \<and>
   length (map (\<lambda>k. Insert 1 k (TableData [])) two_hundred_pages) = 200 \<and>
   \<not> list_ex (inserts_key ''home'') (map (\<lambda>k. Insert 1 k (TableData [])) two_hundred_pages) \<and>
   (2 :: real) < 0 + 3600 \<and>
   \<not> cache_contains 2
       (run (+) (map (\<lambda>k. Insert 1 k (TableData [])) two_hundred_pages)
          (cache_setitem (+) 0 [] ''home'' (HomeData \<lparr>announcements = [], stats = [], images = []\<rparr>)))
       ''home'' \<and>
   requests (serve (site no_join (+) home_page) 2 ApiHome
       (run (+) (map (\<lambda>k. Insert 1 k (TableData [])) two_hundred_pages)
          (cache_setitem (+) 0 [] ''home'' (HomeData \<lparr>announcements = [], stats = [], images = []\<rparr>)))) =
     [Get ''https://rguktong.ac.in/'']"
proof -
  let ?c = "cache_setitem (+) 0 [] ''home'' (HomeData \<lparr>announcements = [], stats = [], images = []\<rparr>)"
  let ?ops = "map (\<lambda>k. Insert 1 k (TableData [])) two_hundred_pages"
  have c: "?c = [(''home'', 3600, HomeData \<lparr>announcements = [], stats = [], images = []\<rparr>)]"
    by (simp add: cache_setitem_def expire_def ttl_def)
  have first: "cache_contains 1 ?c ''home''"
    by (simp add: c cache_contains_def)
  have others: "\<not> list_ex (inserts_key ''home'') ?ops"
    using two_hundred_pages_facts(3) by (auto simp add: list_ex_iff)
  have "fold (\<lambda>k c. cache_setitem (+) 1 c k (TableData [])) two_hundred_pages ?c =
          drop (length ?c + length two_hundred_pages - maxsize)
            (?c @ map (\<lambda>k. (k, 1 + ttl, TableData [])) two_hundred_pages)"
    using two_hundred_pages_facts
    by (intro fill_fresh) (simp_all add: c maxsize_def ttl_def)
  then have "run (+) ?ops ?c = map (\<lambda>k. (k, 1 + ttl, TableData [])) two_hundred_pages"
    by (simp add: run_inserts c two_hundred_pages_facts maxsize_def)
  moreover have "map_of (map (\<lambda>k. (k, 1 + ttl, TableData [])) two_hundred_pages) ''home'' = None"
    using two_hundred_pages_facts(3) by (simp add: map_of_eq_None_iff image_image)
  ultimately have gone: "\<not> cache_contains 2 (run (+) ?ops ?c) ''home''"
    by (simp add: cache_contains_def)
  then have again: "requests (serve (site no_join (+) home_page) 2 ApiHome (run (+) ?ops ?c)) =
                      [Get ''https://rguktong.ac.in/'']"
    by (simp add: home_api_def BASE_URL_def)
  from first others gone again show ?thesis
    by (simp add: two_hundred_pages_facts(2))
qed

end
